theory Spec2Isabelle
  imports Main
begin

section \<open>MAC-compare: snapshot collection, consolidation and comparison\<close>

text \<open>
  A shallow embedding of the workers of the MAC-compare tool (\<^verbatim>\<open>src/workers.py\<close>:
  \<^verbatim>\<open>CreateEvent\<close> and \<^verbatim>\<open>CompareEvent\<close>) and of the snapshot directory scan of its form
  (\<^verbatim>\<open>src/ui.py\<close>: \<^verbatim>\<open>Form.scan_snapshots\<close>).

  Conventions of the embedding:
  \<^item> a Python \<^verbatim>\<open>str\<close> is a \<open>string\<close>; character classes are those of ASCII text, which is what
    interface names, MAC addresses and file names of the tool consist of;
  \<^item> a Python \<^verbatim>\<open>dict\<close> whose iteration order matters is an association list in insertion order
    (\<open>dict_set\<close> overwrites in place or appends, as item assignment does); a dict that is only
    looked up is a map;
  \<^item> a raised exception is the \<open>Inl\<close> branch of a sum;
  \<^item> the collaborators the repository does not contain (the device session, the resolver, the
    clock, the network and the file system) are fields of an environment record.
\<close>

datatype exn = AttributeError | KeyError | FileNotFoundError | RequestException | CommandError | RuntimeError

subsection \<open>Regular-expression fragments\<close>

text \<open>
  The patterns of the source are built from a few backtracking matchers in continuation
  style: a matcher consumes a prefix of the text and hands the rest to its continuation, and a
  failed continuation makes a greedy repetition give back one character at a time, as
  Python's \<^verbatim>\<open>re\<close> does. \<^verbatim>\<open>\d\<close>, \<^verbatim>\<open>\s\<close> and \<^verbatim>\<open>\w\<close> are the ASCII classes
  (\<^verbatim>\<open>\s\<close> includes the separators 0x1C to 0x1F, as in \<^verbatim>\<open>str\<close> patterns).
\<close>

definition is_digit :: "char \<Rightarrow> bool" where
  "is_digit c = (c \<in> set ''0123456789'')"

definition is_space :: "char \<Rightarrow> bool" where
  "is_space c = (c \<in> set [CHR 0x09, CHR 0x0A, CHR 0x0B, CHR 0x0C, CHR 0x0D,
                             CHR 0x1C, CHR 0x1D, CHR 0x1E, CHR 0x1F, CHR 0x20])"

definition is_word :: "char \<Rightarrow> bool" where
  "is_word c = (c \<in> set ''abcdefghijklmnopqrstuvwxyzABCDEFGHIJKLMNOPQRSTUVWXYZ0123456789_'')"

definition to_lower :: "char \<Rightarrow> char" where
  "to_lower c =
     (case map_of (zip ''ABCDEFGHIJKLMNOPQRSTUVWXYZ'' ''abcdefghijklmnopqrstuvwxyz'') c of
        None \<Rightarrow> c
      | Some l \<Rightarrow> l)"


text \<open>
  \<open>greedy_upto n lo s k\<close>: try to split \<open>s\<close> after \<open>n\<close>, \<open>n - 1\<close>, ... characters, never
  fewer than \<open>lo\<close>, and return the first split the continuation accepts.
\<close>

fun greedy_upto :: "nat \<Rightarrow> nat \<Rightarrow> string \<Rightarrow> (string \<Rightarrow> string \<Rightarrow> 'a option) \<Rightarrow> 'a option" where
  "greedy_upto 0 lo s k = (if lo = 0 then k [] s else None)"
| "greedy_upto (Suc n) lo s k =
     (if Suc n < lo then None
      else (case k (take (Suc n) s) (drop (Suc n) s) of
              Some r \<Rightarrow> Some r
            | None \<Rightarrow> greedy_upto n lo s k))"

text \<open>\<open>re_many P lo\<close> is the greedy repetition of the class \<open>P\<close>, at least \<open>lo\<close> times
  (\<^verbatim>\<open>P*\<close> for \<open>lo = 0\<close>, \<^verbatim>\<open>P+\<close> for \<open>lo = 1\<close>).\<close>

definition re_many :: "(char \<Rightarrow> bool) \<Rightarrow> nat \<Rightarrow> string \<Rightarrow> (string \<Rightarrow> string \<Rightarrow> 'a option) \<Rightarrow> 'a option" where
  "re_many P lo s k = greedy_upto (length (takeWhile P s)) lo s k"

definition re_lit :: "string \<Rightarrow> string \<Rightarrow> (string \<Rightarrow> 'a option) \<Rightarrow> 'a option" where
  "re_lit p s k = (if take (length p) s = p then k (drop (length p) s) else None)"

text \<open>\<^verbatim>\<open>re.search\<close>: the match at the leftmost position that has one.\<close>

fun re_search :: "(string \<Rightarrow> 'a option) \<Rightarrow> string \<Rightarrow> 'a option" where
  "re_search m [] = m []"
| "re_search m (c # cs) = (case m (c # cs) of Some r \<Rightarrow> Some r | None \<Rightarrow> re_search m cs)"

text \<open>\<^verbatim>\<open>re.search(f'^{label}', iface, re.IGNORECASE)\<close>: the label is a prefix, letter case
  aside.\<close>

fun re_prefix_ignorecase :: "string \<Rightarrow> string \<Rightarrow> bool" where
  "re_prefix_ignorecase [] s = True"
| "re_prefix_ignorecase (p # ps) [] = False"
| "re_prefix_ignorecase (p # ps) (c # cs) = (to_lower p = to_lower c \<and> re_prefix_ignorecase ps cs)"

subsection \<open>Interface-name normalisation (\<^verbatim>\<open>CreateEvent.normalize_iface\<close>)\<close>

text \<open>\<^verbatim>\<open>re.search(r'(\d+\S*)', iface)\<close>, tried at one position and searched.\<close>

definition port_id_at :: "string \<Rightarrow> string option" where
  "port_id_at s =
     re_many is_digit 1 s (\<lambda>ds r. re_many (\<lambda>c. \<not> is_space c) 0 r (\<lambda>t _. Some (ds @ t)))"

definition search_port_id :: "string \<Rightarrow> string option" where
  "search_port_id iface = re_search port_id_at iface"

definition labels :: "string list" where
  "labels = [''Te'', ''Gi'', ''Fa'', ''Eth'', ''Lo'', ''Vl'', ''Two'', ''Twe'']"

text \<open>
  The loop over the labels. \<^verbatim>\<open>re.search(...).group(0)\<close> on a name without a digit calls
  \<^verbatim>\<open>group\<close> on \<^verbatim>\<open>None\<close>: an \<^verbatim>\<open>AttributeError\<close>.
\<close>

fun normalize_labels :: "string list \<Rightarrow> string \<Rightarrow> exn + string" where
  "normalize_labels [] iface = Inr iface"
| "normalize_labels (label # rest) iface =
     (if re_prefix_ignorecase label iface
      then (case search_port_id iface of
              None \<Rightarrow> Inl AttributeError
            | Some port_id \<Rightarrow> Inr (label @ port_id))
      else normalize_labels rest iface)"

definition normalize_iface :: "string \<Rightarrow> exn + string" where
  "normalize_iface iface = normalize_labels labels iface"


subsection \<open>Python dicts in insertion order\<close>

type_synonym ('k, 'v) dict = "('k \<times> 'v) list"

definition dict_get :: "('k, 'v) dict \<Rightarrow> 'k \<Rightarrow> 'v option" where
  "dict_get d k = map_of d k"

text \<open>\<^verbatim>\<open>d[k] = v\<close>: an existing key keeps its place, a new key goes to the end.\<close>

fun dict_set :: "('k, 'v) dict \<Rightarrow> 'k \<Rightarrow> 'v \<Rightarrow> ('k, 'v) dict" where
  "dict_set [] k v = [(k, v)]"
| "dict_set ((a, b) # d) k v = (if a = k then (k, v) # d else (a, b) # dict_set d k v)"

definition dict_keys :: "('k, 'v) dict \<Rightarrow> 'k list" where
  "dict_keys d = map fst d"

subsection \<open>Consolidation (\<^verbatim>\<open>CreateEvent.refactor_data\<close>)\<close>

text \<open>
  \<open>device_prop\<close> is the record \<^verbatim>\<open>create_task\<close> stores for one MAC address on one device (the
  fields are the keys of the Python dict); \<open>endpoint\<close> is the consolidated record, whose
  \<^verbatim>\<open>Switch\<close>, \<^verbatim>\<open>Interface\<close>, \<^verbatim>\<open>Speed\<close> and \<^verbatim>\<open>Duplex\<close> are lists.
\<close>

record device_prop =
  prop_Hostname :: string
  prop_IP_Address :: string
  prop_Switch :: string
  prop_Interface :: string
  prop_Speed :: string
  prop_Duplex :: string
  prop_MAC_Address :: string
  prop_Vendor :: string
  prop_Vlan :: string

record endpoint =
  MAC_Address :: string
  Vendor :: string
  Hostname :: string
  IP_Address :: string
  Vlan :: string
  Switch :: "string list"
  Interface :: "string list"
  Speed :: "string list"
  Duplex :: "string list"

text \<open>\<^verbatim>\<open>self.data['endpoints']\<close> after collection: per device, the dict from MAC address to
  \<open>device_prop\<close>. Only looked up by device, so a map; a device whose task stored nothing has no
  entry.\<close>

type_synonym endpoints_data = "string \<rightharpoonup> (string, device_prop) dict"

text \<open>The three locals of the loop. \<^verbatim>\<open>refactored\<close> gets the keys 1, 2, 3, ... in this
  order, so its insertion order is the order of its keys.\<close>

record refactor_state =
  ep_idx :: nat
  refactored :: "nat \<rightharpoonup> endpoint"
  mac_to_index :: "string \<rightharpoonup> nat"

text \<open>The body of the inner loop. \<^verbatim>\<open>refactored[idx]\<close> on a missing index would be a
  \<^verbatim>\<open>KeyError\<close>.\<close>

definition refactor_step :: "string \<Rightarrow> device_prop \<Rightarrow> refactor_state \<Rightarrow> exn + refactor_state" where
  "refactor_step mac p st =
     (case mac_to_index st mac of
        Some idx \<Rightarrow>
          (case refactored st idx of
             None \<Rightarrow> Inl KeyError
           | Some e \<Rightarrow>
               Inr (st\<lparr>refactored := (refactored st)(idx \<mapsto>
                      e\<lparr>Switch := Switch e @ [prop_Switch p],
                        Interface := Interface e @ [prop_Interface p],
                        Speed := Speed e @ [prop_Speed p],
                        Duplex := Duplex e @ [prop_Duplex p]\<rparr>)\<rparr>))
      | None \<Rightarrow>
          Inr \<lparr>ep_idx = ep_idx st + 1,
               refactored = (refactored st)(ep_idx st + 1 \<mapsto>
                 \<lparr>MAC_Address = prop_MAC_Address p,
                  Vendor = prop_Vendor p,
                  Hostname = prop_Hostname p,
                  IP_Address = prop_IP_Address p,
                  Vlan = prop_Vlan p,
                  Switch = [prop_Switch p],
                  Interface = [prop_Interface p],
                  Speed = [prop_Speed p],
                  Duplex = [prop_Duplex p]\<rparr>),
               mac_to_index = (mac_to_index st)(mac \<mapsto> ep_idx st + 1)\<rparr>)"

fun refactor_items :: "(string, device_prop) dict \<Rightarrow> refactor_state \<Rightarrow> exn + refactor_state" where
  "refactor_items [] st = Inr st"
| "refactor_items ((mac, p) # rest) st =
     (case refactor_step mac p st of
        Inl e \<Rightarrow> Inl e
      | Inr st' \<Rightarrow> refactor_items rest st')"

fun refactor_devices :: "string list \<Rightarrow> endpoints_data \<Rightarrow> refactor_state \<Rightarrow> exn + refactor_state" where
  "refactor_devices [] data st = Inr st"
| "refactor_devices (device # rest) data st =
     (case refactor_items (case data device of None \<Rightarrow> [] | Some items \<Rightarrow> items) st of
        Inl e \<Rightarrow> Inl e
      | Inr st' \<Rightarrow> refactor_devices rest data st')"

definition refactor_data :: "string list \<Rightarrow> endpoints_data \<Rightarrow> exn + refactor_state" where
  "refactor_data devices data =
     refactor_devices devices data \<lparr>ep_idx = 0, refactored = Map.empty, mac_to_index = Map.empty\<rparr>"

text \<open>
  What the claims speak of. \<open>reported data mac device\<close> is the observation of \<open>mac\<close> the
  device stored, if any; \<open>reporting_devices\<close> are the entries of the device list that report
  the address, in list order (a device listed twice is two entries); \<open>reports_of\<close> are their
  observations in the same order. A per-device dict has each key once: \<open>wf_data\<close>.
\<close>

definition reported :: "endpoints_data \<Rightarrow> string \<Rightarrow> string \<Rightarrow> device_prop option" where
  "reported data mac device =
     (case data device of None \<Rightarrow> None | Some items \<Rightarrow> dict_get items mac)"

definition reporting_devices :: "string list \<Rightarrow> endpoints_data \<Rightarrow> string \<Rightarrow> string list" where
  "reporting_devices devices data mac = filter (\<lambda>d. reported data mac d \<noteq> None) devices"

definition reports_of :: "string list \<Rightarrow> endpoints_data \<Rightarrow> string \<Rightarrow> device_prop list" where
  "reports_of devices data mac = List.map_filter (reported data mac) devices"

definition wf_data :: "string list \<Rightarrow> endpoints_data \<Rightarrow> bool" where
  "wf_data devices data =
     list_all (\<lambda>d. case data d of None \<Rightarrow> True | Some items \<Rightarrow> distinct (dict_keys items)) devices"

text \<open>The record made of a first observation and the later ones: the scalar fields of the
  first, the four lists over all of them.\<close>

definition consolidated :: "device_prop \<Rightarrow> device_prop list \<Rightarrow> endpoint" where
  "consolidated p later =
     \<lparr>MAC_Address = prop_MAC_Address p,
      Vendor = prop_Vendor p,
      Hostname = prop_Hostname p,
      IP_Address = prop_IP_Address p,
      Vlan = prop_Vlan p,
      Switch = map prop_Switch (p # later),
      Interface = map prop_Interface (p # later),
      Speed = map prop_Speed (p # later),
      Duplex = map prop_Duplex (p # later)\<rparr>"

text \<open>The observations in the order the two loops visit them, and the invariant of the
  loops after the observations \<open>xs\<close>.\<close>

definition observations :: "string list \<Rightarrow> endpoints_data \<Rightarrow> (string \<times> device_prop) list" where
  "observations devices data =
     concat (map (\<lambda>d. case data d of None \<Rightarrow> [] | Some items \<Rightarrow> items) devices)"

definition observations_of :: "(string \<times> device_prop) list \<Rightarrow> string \<Rightarrow> device_prop list" where
  "observations_of xs mac = map snd (filter (\<lambda>x. fst x = mac) xs)"

definition refactor_inv :: "(string \<times> device_prop) list \<Rightarrow> refactor_state \<Rightarrow> bool" where
  "refactor_inv xs st \<longleftrightarrow>
     (\<forall>m. observations_of xs m = [] \<longrightarrow> mac_to_index st m = None) \<and>
     (\<forall>m p later. observations_of xs m = p # later \<longrightarrow>
        (\<exists>i. mac_to_index st m = Some i \<and> refactored st i = Some (consolidated p later))) \<and>
     (\<forall>m i. mac_to_index st m = Some i \<longrightarrow> i \<le> ep_idx st) \<and>
     (\<forall>m m' i. mac_to_index st m = Some i \<longrightarrow> mac_to_index st m' = Some i \<longrightarrow> m = m')"

text \<open>A sample collection: \<^verbatim>\<open>sw2\<close> stored nothing, \<^verbatim>\<open>sw1\<close> and \<^verbatim>\<open>sw3\<close> both report the
  address \<^verbatim>\<open>aa\<close>.\<close>

definition sample_prop :: "string \<Rightarrow> string \<Rightarrow> string \<Rightarrow> string \<Rightarrow> device_prop" where
  "sample_prop mac switch port host =
     \<lparr>prop_Hostname = host, prop_IP_Address = ''10.0.0.'' @ port, prop_Switch = switch,
      prop_Interface = ''Gi1/0/'' @ port, prop_Speed = ''a-1000'', prop_Duplex = ''a-full'',
      prop_MAC_Address = mac, prop_Vendor = ''Unknown'', prop_Vlan = ''10''\<rparr>"

definition sample_devices :: "string list" where
  "sample_devices = [''sw1'', ''sw2'', ''sw3'']"

definition sample_data :: endpoints_data where
  "sample_data =
     [''sw1'' \<mapsto> [(''aa'', sample_prop ''aa'' ''SW1'' ''1'' ''h1'')],
      ''sw3'' \<mapsto> [(''bb'', sample_prop ''bb'' ''SW3'' ''2'' ''h2''),
                  (''aa'', sample_prop ''aa'' ''SW3'' ''3'' ''h3'')]]"


subsection \<open>Comparison (\<^verbatim>\<open>CompareEvent\<close>)\<close>

text \<open>
  A cell of the comparison table holds a value, a string or a list of strings (the four list
  attributes of an endpoint) and one of the four formats of \<^verbatim>\<open>self.cell_format\<close>. Python's
  \<^verbatim>\<open>==\<close> on such values is the equality of \<open>pyval\<close>: a string never equals a list.
\<close>

datatype pyval = Str string | StrList "string list"

datatype cell_format = ftNormal | ftBad | ftGood | ftInfo

record cell =
  val :: pyval
  cellFormat :: cell_format

record row =
  Address :: cell
  Observation :: cell
  Row_Vendor :: cell
  Pre_Device :: cell
  Pre_Interface :: cell
  Pre_Speed :: cell
  Pre_Duplex :: cell
  Pre_Vlan :: cell
  Pre_IP :: cell
  Pre_Hostname :: cell
  Post_Device :: cell
  Post_Interface :: cell
  Post_Speed :: cell
  Post_Duplex :: cell
  Post_Vlan :: cell
  Post_IP :: cell
  Post_Hostname :: cell

text \<open>\<^verbatim>\<open>get_mac_data\<close>: the endpoints of a loaded snapshot (the values of its
  \<^verbatim>\<open>endpoints\<close> dict, in file order), keyed again by MAC address.\<close>

definition rekey :: "endpoint list \<Rightarrow> (string, endpoint) dict" where
  "rekey eps = fold (\<lambda>ep d. dict_set d (MAC_Address ep) ep) eps []"

definition get_mac_data :: "endpoint list \<Rightarrow> endpoint list \<Rightarrow> (string, endpoint) dict \<times> (string, endpoint) dict" where
  "get_mac_data pre_snapshot_data post_snapshot_data = (rekey pre_snapshot_data, rekey post_snapshot_data)"

definition match_attribute :: "pyval \<Rightarrow> pyval \<Rightarrow> cell" where
  "match_attribute pre post = \<lparr>val = post, cellFormat = (if pre = post then ftNormal else ftBad)\<rparr>"

text \<open>The row of the first loop for one MAC address of the Pre snapshot; \<open>post\<close> is
  \<^verbatim>\<open>self.post_snapshot_data.get(mac)\<close>. An endpoint is a dict with nine keys, so
  \<^verbatim>\<open>if post\<close> holds exactly when the address is in the Post snapshot.\<close>

definition pre_row :: "string \<Rightarrow> endpoint \<Rightarrow> endpoint option \<Rightarrow> row" where
  "pre_row mac pre post =
     (let observation = (case post of None \<Rightarrow> ''MAC Not Learnt'' | Some _ \<Rightarrow> ''MAC Learnt'');
          obs_format = (case post of None \<Rightarrow> ftBad | Some _ \<Rightarrow> ftGood);
          r = \<lparr>Address = \<lparr>val = Str mac, cellFormat = ftNormal\<rparr>,
               Observation = \<lparr>val = Str observation, cellFormat = obs_format\<rparr>,
               Row_Vendor = \<lparr>val = Str (Vendor pre), cellFormat = ftNormal\<rparr>,
               Pre_Device = \<lparr>val = StrList (Switch pre), cellFormat = ftNormal\<rparr>,
               Pre_Interface = \<lparr>val = StrList (Interface pre), cellFormat = ftNormal\<rparr>,
               Pre_Speed = \<lparr>val = StrList (Speed pre), cellFormat = ftNormal\<rparr>,
               Pre_Duplex = \<lparr>val = StrList (Duplex pre), cellFormat = ftNormal\<rparr>,
               Pre_Vlan = \<lparr>val = Str (Vlan pre), cellFormat = ftNormal\<rparr>,
               Pre_IP = \<lparr>val = Str (IP_Address pre), cellFormat = ftNormal\<rparr>,
               Pre_Hostname = \<lparr>val = Str (Hostname pre), cellFormat = ftNormal\<rparr>,
               Post_Device = \<lparr>val = Str ''???'', cellFormat = ftBad\<rparr>,
               Post_Interface = \<lparr>val = Str ''???'', cellFormat = ftBad\<rparr>,
               Post_Speed = \<lparr>val = Str ''???'', cellFormat = ftBad\<rparr>,
               Post_Duplex = \<lparr>val = Str ''???'', cellFormat = ftBad\<rparr>,
               Post_Vlan = \<lparr>val = Str ''???'', cellFormat = ftBad\<rparr>,
               Post_IP = \<lparr>val = Str ''???'', cellFormat = ftBad\<rparr>,
               Post_Hostname = \<lparr>val = Str ''???'', cellFormat = ftBad\<rparr>\<rparr>
      in (case post of
            None \<Rightarrow> r
          | Some post \<Rightarrow>
              r\<lparr>Post_Device := \<lparr>val = StrList (Switch post), cellFormat = ftNormal\<rparr>,
                Post_Interface := \<lparr>val = StrList (Interface post), cellFormat = ftNormal\<rparr>,
                Post_Speed := match_attribute (StrList (Speed pre)) (StrList (Speed post)),
                Post_Duplex := match_attribute (StrList (Duplex pre)) (StrList (Duplex post)),
                Post_Vlan := match_attribute (Str (Vlan pre)) (Str (Vlan post)),
                Post_IP := match_attribute (Str (IP_Address pre)) (Str (IP_Address post)),
                Post_Hostname := match_attribute (Str (Hostname pre)) (Str (Hostname post))\<rparr>))"

text \<open>The row of the second loop, for a MAC address of the Post snapshot that the Pre
  snapshot lacks.\<close>

definition new_row :: "string \<Rightarrow> endpoint \<Rightarrow> row" where
  "new_row mac post =
     \<lparr>Address = \<lparr>val = Str mac, cellFormat = ftNormal\<rparr>,
      Observation = \<lparr>val = Str ''New MAC'', cellFormat = ftInfo\<rparr>,
      Row_Vendor = \<lparr>val = Str (Vendor post), cellFormat = ftNormal\<rparr>,
      Pre_Device = \<lparr>val = Str ''???'', cellFormat = ftNormal\<rparr>,
      Pre_Interface = \<lparr>val = Str ''???'', cellFormat = ftNormal\<rparr>,
      Pre_Speed = \<lparr>val = Str ''???'', cellFormat = ftNormal\<rparr>,
      Pre_Duplex = \<lparr>val = Str ''???'', cellFormat = ftNormal\<rparr>,
      Pre_Vlan = \<lparr>val = Str ''???'', cellFormat = ftNormal\<rparr>,
      Pre_IP = \<lparr>val = Str ''???'', cellFormat = ftNormal\<rparr>,
      Pre_Hostname = \<lparr>val = Str ''???'', cellFormat = ftNormal\<rparr>,
      Post_Device = \<lparr>val = StrList (Switch post), cellFormat = ftNormal\<rparr>,
      Post_Interface = \<lparr>val = StrList (Interface post), cellFormat = ftNormal\<rparr>,
      Post_Speed = \<lparr>val = StrList (Speed post), cellFormat = ftNormal\<rparr>,
      Post_Duplex = \<lparr>val = StrList (Duplex post), cellFormat = ftNormal\<rparr>,
      Post_Vlan = \<lparr>val = Str (Vlan post), cellFormat = ftNormal\<rparr>,
      Post_IP = \<lparr>val = Str (IP_Address post), cellFormat = ftNormal\<rparr>,
      Post_Hostname = \<lparr>val = Str (Hostname post), cellFormat = ftNormal\<rparr>\<rparr>"

text \<open>\<^verbatim>\<open>compare_snapshots\<close>: the two loops fill \<^verbatim>\<open>self.compare_data\<close>, a dict from MAC
  address to row, in the iteration order of the two snapshots.\<close>

fun compare_pre_loop :: "(string, endpoint) dict \<Rightarrow> (string, endpoint) dict \<Rightarrow> (string, row) dict \<Rightarrow> (string, row) dict" where
  "compare_pre_loop [] post_snapshot_data compare_data = compare_data"
| "compare_pre_loop ((mac, pre) # rest) post_snapshot_data compare_data =
     compare_pre_loop rest post_snapshot_data
       (dict_set compare_data mac (pre_row mac pre (dict_get post_snapshot_data mac)))"

fun compare_post_loop :: "(string, endpoint) dict \<Rightarrow> (string, endpoint) dict \<Rightarrow> (string, row) dict \<Rightarrow> (string, row) dict" where
  "compare_post_loop [] pre_snapshot_data compare_data = compare_data"
| "compare_post_loop ((mac, post) # rest) pre_snapshot_data compare_data =
     compare_post_loop rest pre_snapshot_data
       (if mac \<notin> set (dict_keys pre_snapshot_data)
        then dict_set compare_data mac (new_row mac post)
        else compare_data)"

definition compare_snapshots :: "(string, endpoint) dict \<Rightarrow> (string, endpoint) dict \<Rightarrow> (string, row) dict" where
  "compare_snapshots pre_snapshot_data post_snapshot_data =
     compare_post_loop post_snapshot_data pre_snapshot_data
       (compare_pre_loop pre_snapshot_data post_snapshot_data [])"

text \<open>The observation the claims expect for a MAC address, from where it is present.\<close>

definition expected_observation :: "bool \<Rightarrow> bool \<Rightarrow> string" where
  "expected_observation in_pre in_post =
     (if in_pre then (if in_post then ''MAC Learnt'' else ''MAC Not Learnt'') else ''New MAC'')"

text \<open>Sample snapshots: \<^verbatim>\<open>m1\<close> is in both and changes speed, \<^verbatim>\<open>m2\<close> is only in Pre,
  \<^verbatim>\<open>m3\<close> only in Post, where it comes first.\<close>

definition sample_endpoint :: "string \<Rightarrow> string \<Rightarrow> endpoint" where
  "sample_endpoint mac speed =
     \<lparr>MAC_Address = mac, Vendor = ''Unknown'', Hostname = ''host'', IP_Address = ''10.0.0.9'',
      Vlan = ''10'', Switch = [''SW1''], Interface = [''Gi1/0/1''], Speed = [speed],
      Duplex = [''a-full'']\<rparr>"

definition sample_pre :: "endpoint list" where
  "sample_pre = [sample_endpoint ''m2'' ''1G'', sample_endpoint ''m1'' ''1G'']"

definition sample_post :: "endpoint list" where
  "sample_post = [sample_endpoint ''m3'' ''1G'', sample_endpoint ''m1'' ''10G'']"


subsection \<open>Vendor registry (\<^verbatim>\<open>CreateEvent.load_mac_vendor\<close>, \<^verbatim>\<open>get_mac_vendor\<close>)\<close>

text \<open>
  What \<^verbatim>\<open>load_mac_vendor\<close> reads from outside: the clock and the modification time of the
  module file \<^verbatim>\<open>__file__\<close> (seconds, as whole numbers), the cache artifact
  \<^verbatim>\<open>macvendor_registry.json\<close> (its parsed content, \<open>None\<close> when the file is absent) with its
  own modification time, and the answer of the registry (the lines of the body, \<open>None\<close> when
  the request raises).
\<close>

record vendor_env =
  now :: int
  module_mtime :: int
  vendor_file :: "(string, string) dict option"
  vendor_file_mtime :: int
  oui_response :: "string list option"

text \<open>\<^verbatim>\<open>(a - b).days\<close> of two \<^verbatim>\<open>datetime\<close> values: whole days, rounded down.\<close>

definition timedelta_days :: "int \<Rightarrow> int \<Rightarrow> int" where
  "timedelta_days a b = (a - b) div 86400"

text \<open>\<^verbatim>\<open>re.search(r'(\w+)\s+\(base 16\)\s+(.*)', line)\<close>: the two groups.\<close>

definition oui_match_at :: "string \<Rightarrow> (string \<times> string) option" where
  "oui_match_at s =
     re_many is_word 1 s (\<lambda>g1 r1.
       re_many is_space 1 r1 (\<lambda>_ r2.
         re_lit ''(base 16)'' r2 (\<lambda>r3.
           re_many is_space 1 r3 (\<lambda>_ r4.
             re_many (\<lambda>c. c \<noteq> CHR 0x0A) 0 r4 (\<lambda>g2 _. Some (g1, g2))))))"

fun parse_oui :: "string list \<Rightarrow> (string, string) dict \<Rightarrow> (string, string) dict" where
  "parse_oui [] oui_data = oui_data"
| "parse_oui (line # rest) oui_data =
     parse_oui rest
       (case re_search oui_match_at line of
          None \<Rightarrow> oui_data
        | Some (g1, g2) \<Rightarrow> dict_set oui_data g1 g2)"

text \<open>
  The result: whether the registry was fetched, and \<^verbatim>\<open>self.oui_data\<close>, which is also the
  content of the cache artifact afterwards. The age tested is that of the module file.
\<close>

record vendor_result =
  fetched :: bool
  oui_data :: "(string, string) dict"

definition load_mac_vendor :: "vendor_env \<Rightarrow> exn + vendor_result" where
  "load_mac_vendor env =
     (if vendor_file env = None \<or> 90 < timedelta_days (now env) (module_mtime env)
      then (case oui_response env of
              None \<Rightarrow> Inl RequestException
            | Some lines \<Rightarrow> Inr \<lparr>fetched = True, oui_data = parse_oui lines []\<rparr>)
      else (case vendor_file env of
              None \<Rightarrow> Inl FileNotFoundError
            | Some cache \<Rightarrow> Inr \<lparr>fetched = False, oui_data = cache\<rparr>))"

text \<open>The refresh policy as the specification words it: by the age of the cache artifact
  itself.\<close>

definition spec_refresh :: "vendor_env \<Rightarrow> bool" where
  "spec_refresh env =
     (vendor_file env = None \<or> 90 < timedelta_days (now env) (vendor_file_mtime env))"


text \<open>Two situations, 1000 days after the epoch. In the first the cache artifact is 200 days
  old and the module file one day old; in the second the cache artifact is one day old and
  the module file 200 days old.\<close>

definition old_cache_env :: vendor_env where
  "old_cache_env =
     \<lparr>now = 1000 * 86400, module_mtime = 999 * 86400,
      vendor_file = Some [(''00000C'', ''Cisco Systems, Inc'')], vendor_file_mtime = 800 * 86400,
      oui_response = Some [''00000C     (base 16)  Cisco Systems, Inc'']\<rparr>"

definition old_module_env :: vendor_env where
  "old_module_env =
     \<lparr>now = 1000 * 86400, module_mtime = 800 * 86400,
      vendor_file = Some [(''00000C'', ''Cisco Systems, Inc'')], vendor_file_mtime = 999 * 86400,
      oui_response = Some [''00000C     (base 16)  Cisco Systems, Inc'', ''no entry here'']\<rparr>"


subsection \<open>Collection (\<^verbatim>\<open>CreateEvent.create_task\<close>, \<^verbatim>\<open>thread_executor\<close>)\<close>



record iface_prop =
  speed :: string
  duplex :: string



datatype log_record =
  Info string
| Error string
| Debug string
| ExceptionFor string exn
| UnableToAdd string exn










subsection \<open>The snapshot worker (\<^verbatim>\<open>CreateEvent.run\<close>, \<^verbatim>\<open>save_snapshot\<close>)\<close>


record snapshot_slot =
  slot_timestamp :: string
  slot_type :: string
  slot_name :: string












subsection \<open>The snapshot directory scan (\<^verbatim>\<open>Form.scan_snapshots\<close>, \<^verbatim>\<open>add_snapshot\<close>)\<close>

text \<open>\<^verbatim>\<open>re.search(r'\[(.*)\]_\[(.*)\]_\[(.*)\].json', file)\<close>: the three groups. The dot
  before \<^verbatim>\<open>json\<close> is not escaped and stands for any character but a line feed.\<close>

definition not_newline :: "char \<Rightarrow> bool" where
  "not_newline c = (c \<noteq> CHR 0x0A)"

definition re_any :: "string \<Rightarrow> (string \<Rightarrow> 'a option) \<Rightarrow> 'a option" where
  "re_any s k = (case s of [] \<Rightarrow> None | c # cs \<Rightarrow> if not_newline c then k cs else None)"

definition snapshot_match_at :: "string \<Rightarrow> (string \<times> string \<times> string) option" where
  "snapshot_match_at s =
     re_lit ''['' s (\<lambda>r1.
       re_many not_newline 0 r1 (\<lambda>g1 r2.
         re_lit '']_['' r2 (\<lambda>r3.
           re_many not_newline 0 r3 (\<lambda>g2 r4.
             re_lit '']_['' r4 (\<lambda>r5.
               re_many not_newline 0 r5 (\<lambda>g3 r6.
                 re_lit '']'' r6 (\<lambda>r7.
                   re_any r7 (\<lambda>r8.
                     re_lit ''json'' r8 (\<lambda>_. Some (g1, g2, g3))))))))))"

definition snapshot_match :: "string \<Rightarrow> (string \<times> string \<times> string) option" where
  "snapshot_match file = re_search snapshot_match_at file"

text \<open>
  The form keeps the table of snapshots (rows of name, type, timestamp), a row counter and,
  here, the records it logs. The table widget is a collaborator: \<open>table_raises\<close> tells for
  a slot whether inserting its row raises. \<open>listdir\<close> is the content of the snapshot
  directory, \<open>None\<close> when the directory does not exist.
\<close>

record ui_env =
  snapshots_path :: string
  listdir :: "string list option"
  table_raises :: "snapshot_slot \<Rightarrow> exn option"

record ui_state =
  snapshots_table :: "(string \<times> string \<times> string) list"
  snapshots_table_row :: nat
  ui_log :: "log_record list"

text \<open>\<^verbatim>\<open>add_snapshot\<close>: the state it leaves and the exception it raises, if any (the counter
  is incremented before the table is touched).\<close>

definition add_snapshot :: "ui_env \<Rightarrow> ui_state \<Rightarrow> snapshot_slot \<Rightarrow> ui_state \<times> exn option" where
  "add_snapshot w st slot =
     (let st1 = st\<lparr>snapshots_table_row := snapshots_table_row st + 1\<rparr>
      in (case table_raises w slot of
            Some e \<Rightarrow> (st1, Some e)
          | None \<Rightarrow>
              (st1\<lparr>snapshots_table :=
                     snapshots_table st1 @ [(slot_name slot, slot_type slot, slot_timestamp slot)],
                   ui_log := ui_log st1 @
                     [Debug (''Snapshot added: '' @ slot_name slot @ '' - '' @ slot_type slot
                             @ '' - '' @ slot_timestamp slot)]\<rparr>,
               None)))"

text \<open>The body of the loop with its \<^verbatim>\<open>try\<close>: a file that does not match changes nothing; an
  exception of \<^verbatim>\<open>add_snapshot\<close> is caught and logged.\<close>

definition scan_file :: "ui_env \<Rightarrow> string \<Rightarrow> ui_state \<Rightarrow> ui_state" where
  "scan_file w file st =
     (case snapshot_match file of
        None \<Rightarrow> st
      | Some (g1, g2, g3) \<Rightarrow>
          (case add_snapshot w st \<lparr>slot_timestamp = g3, slot_type = g1, slot_name = g2\<rparr> of
             (st', None) \<Rightarrow> st'
           | (st', Some e) \<Rightarrow> st'\<lparr>ui_log := ui_log st' @ [UnableToAdd file e]\<rparr>))"

fun scan_files :: "ui_env \<Rightarrow> string list \<Rightarrow> ui_state \<Rightarrow> ui_state" where
  "scan_files w [] st = st"
| "scan_files w (file # rest) st = scan_files w rest (scan_file w file st)"

definition scan_snapshots :: "ui_env \<Rightarrow> ui_state \<Rightarrow> ui_state" where
  "scan_snapshots w st =
     (case listdir w of
        None \<Rightarrow> st
      | Some files \<Rightarrow>
          scan_files w files
            (st\<lparr>ui_log := ui_log st @ [Debug (''Scanning snapshots in: '' @ snapshots_path w)]\<rparr>))"

text \<open>The state of the form when the scan starts, and a directory with one snapshot and one
  other file.\<close>

definition initial_ui :: ui_state where
  "initial_ui = \<lparr>snapshots_table = [], snapshots_table_row = 0, ui_log = []\<rparr>"

definition sample_ui_env :: ui_env where
  "sample_ui_env =
     \<lparr>snapshots_path = ''out/Snapshots'',
      listdir = Some [''notes.txt'', ''[Pre]_[a]_[t].json''],
      table_raises = (\<lambda>slot. None)\<rparr>"


section \<open>Properties of the interface-name normalisation\<close>

lemma greedy_upto_first:
  "lo \<le> n \<Longrightarrow> k (take n s) (drop n s) = Some r \<Longrightarrow> greedy_upto n lo s k = Some r"
  by (cases n) auto

lemma is_digit_not_space: "is_digit c \<Longrightarrow> \<not> is_space c"
  by (auto simp: is_digit_def is_space_def)

lemma takeWhile_weaker:
  "(\<And>x. P x \<Longrightarrow> Q x) \<Longrightarrow> takeWhile Q xs = takeWhile P xs @ takeWhile Q (dropWhile P xs)"
  by (induction xs) auto

lemma re_many_rest:
  "re_many P 0 r (\<lambda>t _. Some (ds @ t)) = Some (ds @ takeWhile P r)"
  unfolding re_many_def by (rule greedy_upto_first) (simp_all add: takeWhile_eq_take[symmetric])

lemma port_id_at_eq:
  "port_id_at s =
     (case s of [] \<Rightarrow> None
      | c # cs \<Rightarrow> if is_digit c then Some (takeWhile (\<lambda>c. \<not> is_space c) s) else None)"
proof (cases s)
  case Nil
  then show ?thesis by (simp add: port_id_at_def re_many_def)
next
  case (Cons c cs)
  show ?thesis
  proof (cases "is_digit c")
    case False
    with Cons show ?thesis by (simp add: port_id_at_def re_many_def)
  next
    case True
    let ?n = "length (takeWhile is_digit s)"
    have n: "1 \<le> ?n" using True Cons by simp
    have tk: "take ?n s = takeWhile is_digit s"
      by (metis takeWhile_eq_take)
    have dr: "drop ?n s = dropWhile is_digit s"
      by (metis dropWhile_eq_drop)
    have "port_id_at s = Some (takeWhile is_digit s @ takeWhile (\<lambda>c. \<not> is_space c) (dropWhile is_digit s))"
      unfolding port_id_at_def re_many_def[of is_digit]
      by (rule greedy_upto_first[OF n]) (simp add: tk dr re_many_rest)
    also have "takeWhile is_digit s @ takeWhile (\<lambda>c. \<not> is_space c) (dropWhile is_digit s)
        = takeWhile (\<lambda>c. \<not> is_space c) s"
      by (rule takeWhile_weaker[symmetric]) (rule is_digit_not_space)
    finally show ?thesis using True Cons by simp
  qed
qed

lemma search_port_id_eq:
  "search_port_id s =
     (case dropWhile (\<lambda>c. \<not> is_digit c) s of
        [] \<Rightarrow> None
      | ds \<Rightarrow> Some (takeWhile (\<lambda>c. \<not> is_space c) ds))"
  unfolding search_port_id_def
  by (induction s) (auto simp: port_id_at_eq split: list.splits)

lemma normalize_labels_find:
  "normalize_labels ls iface =
     (case find (\<lambda>l. re_prefix_ignorecase l iface) ls of
        None \<Rightarrow> Inr iface
      | Some label \<Rightarrow>
          (case search_port_id iface of
             None \<Rightarrow> Inl AttributeError
           | Some port_id \<Rightarrow> Inr (label @ port_id)))"
  by (induction ls) auto

lemma re_prefix_ignorecase_append:
  "re_prefix_ignorecase p w \<Longrightarrow> re_prefix_ignorecase p (w @ t)"
  by (induction p w rule: re_prefix_ignorecase.induct) auto

lemma re_prefix_ignorecase_refl: "re_prefix_ignorecase p p"
  by (induction p) auto

lemma re_prefix_ignorecase_common:
  "re_prefix_ignorecase p s \<Longrightarrow> re_prefix_ignorecase q s \<Longrightarrow> length p \<le> length q
     \<Longrightarrow> re_prefix_ignorecase p q"
proof (induction p s arbitrary: q rule: re_prefix_ignorecase.induct)
  case (3 p ps c cs)
  then show ?case by (cases q) auto
qed auto

lemma label_prefix_table:
  "list_all (\<lambda>l1. list_all (\<lambda>l2. \<not> re_prefix_ignorecase l1 l2 \<or> l1 = l2) labels) labels"
  by code_simp

lemma label_prefix_eq:
  "l1 \<in> set labels \<Longrightarrow> l2 \<in> set labels \<Longrightarrow> re_prefix_ignorecase l1 l2 \<Longrightarrow> l1 = l2"
  using label_prefix_table unfolding list_all_iff by blast

lemma label_unique:
  assumes "l1 \<in> set labels" "l2 \<in> set labels"
    and "re_prefix_ignorecase l1 s" "re_prefix_ignorecase l2 s"
  shows "l1 = l2"
proof (cases "length l1 \<le> length l2")
  case True
  then show ?thesis
    using assms re_prefix_ignorecase_common[of l1 s l2] label_prefix_eq by blast
next
  case False
  then have "length l2 \<le> length l1" by simp
  then show ?thesis
    using assms re_prefix_ignorecase_common[of l2 s l1] label_prefix_eq[of l2 l1] by blast
qed

lemma find_label:
  assumes "label \<in> set labels" and "re_prefix_ignorecase label s"
  shows "find (\<lambda>l. re_prefix_ignorecase l s) labels = Some label"
proof (cases "find (\<lambda>l. re_prefix_ignorecase l s) labels")
  case None
  with assms show ?thesis by (simp add: find_None_iff)
next
  case (Some l)
  then have "l \<in> set labels" "re_prefix_ignorecase l s"
    by (auto simp: find_Some_iff)
  with assms Some show ?thesis using label_unique by blast
qed

lemma labels_no_digit_table: "list_all (\<lambda>l. list_all (\<lambda>c. \<not> is_digit c) l) labels"
  by code_simp

lemma labels_no_digit: "l \<in> set labels \<Longrightarrow> c \<in> set l \<Longrightarrow> \<not> is_digit c"
  using labels_no_digit_table unfolding list_all_iff by blast

lemma search_port_id_ident:
  assumes "\<And>c. c \<in> set w \<Longrightarrow> \<not> is_digit c" and "is_digit d"
    and "\<And>c. c \<in> set (d # rest) \<Longrightarrow> \<not> is_space c"
  shows "search_port_id (w @ d # rest) = Some (d # rest)"
proof -
  have "dropWhile (\<lambda>c. \<not> is_digit c) (w @ d # rest) = d # rest"
    using assms(1,2) by (simp add: dropWhile_append3)
  moreover have "takeWhile (\<lambda>c. \<not> is_space c) (d # rest) = d # rest"
    using assms(3) by (metis takeWhile_eq_all_conv)
  ultimately show ?thesis by (simp add: search_port_id_eq)
qed

lemma normalize_canonical:
  assumes "label \<in> set labels" and "re_prefix_ignorecase label w"
    and "\<And>c. c \<in> set w \<Longrightarrow> \<not> is_digit c" and "is_digit d"
    and "\<And>c. c \<in> set (d # rest) \<Longrightarrow> \<not> is_space c"
  shows "normalize_iface (w @ d # rest) = Inr (label @ d # rest)"
proof -
  have "find (\<lambda>l. re_prefix_ignorecase l (w @ d # rest)) labels = Some label"
    using assms(1,2) by (intro find_label re_prefix_ignorecase_append)
  then show ?thesis
    using search_port_id_ident[OF assms(3,4,5)]
    by (simp add: normalize_iface_def normalize_labels_find)
qed

lemma normalize_unrecognized:
  "\<forall>label\<in>set labels. \<not> re_prefix_ignorecase label iface \<Longrightarrow> normalize_iface iface = Inr iface"
  by (simp add: normalize_iface_def normalize_labels_find find_None_iff[THEN iffD2])

lemma search_port_id_SomeD:
  assumes "search_port_id x = Some p"
  shows "\<exists>d rest. p = d # rest \<and> is_digit d \<and> (\<forall>c\<in>set (d # rest). \<not> is_space c)"
proof (cases "dropWhile (\<lambda>c. \<not> is_digit c) x")
  case Nil
  with assms show ?thesis by (simp add: search_port_id_eq)
next
  case (Cons d ds')
  have dig: "is_digit d"
    using hd_dropWhile[of "\<lambda>c. \<not> is_digit c" x] Cons by simp
  from assms Cons have pe: "p = takeWhile (\<lambda>c. \<not> is_space c) (d # ds')"
    by (simp add: search_port_id_eq)
  have p1: "p = d # takeWhile (\<lambda>c. \<not> is_space c) ds'"
    unfolding pe using dig is_digit_not_space by simp
  have "\<forall>c\<in>set p. \<not> is_space c"
    unfolding pe by (auto dest: set_takeWhileD)
  with p1 dig show ?thesis by metis
qed

lemma normalize_ok_cases:
  assumes "normalize_iface x = Inr y"
  shows "(\<forall>label\<in>set labels. \<not> re_prefix_ignorecase label x) \<and> y = x
       \<or> (\<exists>label d rest. label \<in> set labels \<and> y = label @ d # rest \<and> is_digit d
             \<and> (\<forall>c\<in>set (d # rest). \<not> is_space c))"
proof (cases "find (\<lambda>l. re_prefix_ignorecase l x) labels")
  case None
  with assms have "y = x" by (simp add: normalize_iface_def normalize_labels_find)
  moreover from None have "\<forall>label\<in>set labels. \<not> re_prefix_ignorecase label x"
    by (simp add: find_None_iff)
  ultimately show ?thesis by blast
next
  case (Some label)
  then have lab: "label \<in> set labels" by (auto simp: find_Some_iff)
  from Some assms obtain p where p: "search_port_id x = Some p" "y = label @ p"
    by (auto simp: normalize_iface_def normalize_labels_find split: option.splits)
  from search_port_id_SomeD[OF p(1)] obtain d rest where
    "p = d # rest" "is_digit d" "\<forall>c\<in>set (d # rest). \<not> is_space c" by blast
  with lab p(2) show ?thesis by blast
qed

text \<open>
  Claim C6. Normalisation is idempotent on its outputs: whenever \<open>normalize_iface\<close> returns
  a name \<open>y\<close> for some input, normalising \<open>y\<close> again returns \<open>y\<close> unchanged.
\<close>

theorem normalize_iface_idempotent:
  assumes "normalize_iface x = Inr y"
  shows "normalize_iface y = Inr y"
  using normalize_ok_cases[OF assms]
proof (elim disjE conjE exE)
  assume "\<forall>label\<in>set labels. \<not> re_prefix_ignorecase label x" "y = x"
  then show ?thesis using assms by simp
next
  fix label d rest
  assume h: "label \<in> set labels" "y = label @ d # rest" "is_digit d"
    "\<forall>c\<in>set (d # rest). \<not> is_space c"
  have nd: "\<And>c. c \<in> set label \<Longrightarrow> \<not> is_digit c"
    using labels_no_digit[OF h(1)] by blast
  have ns: "\<And>c. c \<in> set (d # rest) \<Longrightarrow> \<not> is_space c"
    using h(4) by blast
  show ?thesis unfolding h(2)
    by (rule normalize_canonical[OF h(1) re_prefix_ignorecase_refl nd h(3) ns])
qed

theorem normalize_iface_idempotent_witness:
  "normalize_iface ''GigabitEthernet1/0/1'' = Inr ''Gi1/0/1'' \<and> normalize_iface ''Gi1/0/1'' = Inr ''Gi1/0/1''"
proof -
  have h: "normalize_iface ''GigabitEthernet1/0/1'' = Inr ''Gi1/0/1''" by code_simp
  from normalize_iface_idempotent[OF h] h show ?thesis by simp
qed

lemma search_port_id_None_iff:
  "search_port_id s = None \<longleftrightarrow> (\<forall>c\<in>set s. \<not> is_digit c)"
proof (cases "dropWhile (\<lambda>c. \<not> is_digit c) s")
  case Nil
  then have "\<forall>c\<in>set s. \<not> is_digit c" by (simp only: dropWhile_eq_Nil_conv)
  moreover have "search_port_id s = None" unfolding search_port_id_eq Nil by simp
  ultimately show ?thesis by blast
next
  case (Cons d ds)
  then have "dropWhile (\<lambda>c. \<not> is_digit c) s \<noteq> []" by simp
  then have "\<not> (\<forall>c\<in>set s. \<not> is_digit c)" by (simp only: dropWhile_eq_Nil_conv not_False_eq_True)
  moreover have "search_port_id s \<noteq> None" unfolding search_port_id_eq Cons by simp
  ultimately show ?thesis by blast
qed

lemma find_label_None_iff:
  "find (\<lambda>l. re_prefix_ignorecase l s) labels = None \<longleftrightarrow> \<not> (\<exists>label\<in>set labels. re_prefix_ignorecase label s)"
  unfolding find_None_iff by blast

lemma normalize_iface_raises_iff:
  "normalize_iface iface = Inl e \<longleftrightarrow>
     e = AttributeError \<and> (\<exists>label\<in>set labels. re_prefix_ignorecase label iface) \<and> (\<forall>c\<in>set iface. \<not> is_digit c)"
proof (cases "find (\<lambda>l. re_prefix_ignorecase l iface) labels")
  case None
  then have "normalize_iface iface = Inr iface"
    by (simp add: normalize_iface_def normalize_labels_find)
  moreover from None have "\<not> (\<exists>label\<in>set labels. re_prefix_ignorecase label iface)"
    using find_label_None_iff[of iface] by blast
  ultimately show ?thesis by auto
next
  case (Some l)
  then have ex: "\<exists>label\<in>set labels. re_prefix_ignorecase label iface"
    using find_label_None_iff[of iface] by auto
  show ?thesis
  proof (cases "search_port_id iface")
    case None
    then have "\<forall>c\<in>set iface. \<not> is_digit c" using search_port_id_None_iff[of iface] by blast
    moreover from None Some have "normalize_iface iface = Inl AttributeError"
      by (simp add: normalize_iface_def normalize_labels_find)
    ultimately show ?thesis using ex by auto
  next
    case (Some p)
    then have "\<not> (\<forall>c\<in>set iface. \<not> is_digit c)"
      using search_port_id_None_iff[of iface] by auto
    moreover from Some \<open>find _ labels = Some l\<close> have "normalize_iface iface = Inr (l @ p)"
      by (simp add: normalize_iface_def normalize_labels_find)
    ultimately show ?thesis by auto
  qed
qed

text \<open>
  Claim C9. \<open>normalize_iface\<close> is partial. The bare name \<^verbatim>\<open>Ethernet\<close> raises; so does
  every name that begins, letter case aside, with a recognised label and holds no digit; and
  under the precondition that a name with a recognised label holds a digit, a string is
  returned.
\<close>

theorem normalize_iface_partial:
  "normalize_iface ''Ethernet'' = Inl AttributeError
   \<and> ((\<exists>label\<in>set labels. re_prefix_ignorecase label iface) \<and> (\<forall>c\<in>set iface. \<not> is_digit c)
        \<longrightarrow> normalize_iface iface = Inl AttributeError)
   \<and> (((\<exists>label\<in>set labels. re_prefix_ignorecase label iface) \<longrightarrow> (\<exists>c\<in>set iface. is_digit c))
        \<longrightarrow> (\<exists>y. normalize_iface iface = Inr y))"
proof (intro conjI impI)
  show "normalize_iface ''Ethernet'' = Inl AttributeError" by code_simp
next
  assume "(\<exists>label\<in>set labels. re_prefix_ignorecase label iface) \<and> (\<forall>c\<in>set iface. \<not> is_digit c)"
  then show "normalize_iface iface = Inl AttributeError"
    using normalize_iface_raises_iff[of iface AttributeError] by blast
next
  assume h: "(\<exists>label\<in>set labels. re_prefix_ignorecase label iface) \<longrightarrow> (\<exists>c\<in>set iface. is_digit c)"
  show "\<exists>y. normalize_iface iface = Inr y"
  proof (cases "normalize_iface iface")
    case (Inl e)
    then show ?thesis using h normalize_iface_raises_iff[of iface e] by blast
  next
    case (Inr y)
    then show ?thesis by blast
  qed
qed

theorem normalize_iface_partial_witness:
  "(\<exists>label\<in>set labels. re_prefix_ignorecase label ''loopback'')
   \<and> normalize_iface ''loopback'' = Inl AttributeError
   \<and> (\<exists>c\<in>set ''Vlan10''. is_digit c) \<and> (\<exists>y. normalize_iface ''Vlan10'' = Inr y)"
proof -
  have a: "(\<exists>label\<in>set labels. re_prefix_ignorecase label ''loopback'') \<and> (\<forall>c\<in>set ''loopback''. \<not> is_digit c)"
    by code_simp
  have b: "\<exists>c\<in>set ''Vlan10''. is_digit c" by code_simp
  have c: "normalize_iface ''loopback'' = Inl AttributeError"
    using normalize_iface_partial[of "''loopback''"] a by blast
  have d: "\<exists>y. normalize_iface ''Vlan10'' = Inr y"
    using normalize_iface_partial[of "''Vlan10''"] b by blast
  from a b c d show ?thesis by blast
qed

text \<open>
  Claim C7. A name \<open>w @ d # rest\<close>, where the word \<open>w\<close> begins (letter case aside) with the
  label and holds no digit and \<open>d # rest\<close> is an identifier (a digit, then characters other
  than white space), is mapped to the label followed by the identifier; so
  \<^verbatim>\<open>gi1/0/1\<close> and \<^verbatim>\<open>GigabitEthernet1/0/1\<close> normalise to the same string. A name that begins
  with none of the labels is returned unchanged.
\<close>

theorem normalize_iface_canonical:
  "(label \<in> set labels \<and> re_prefix_ignorecase label w \<and> (\<forall>c\<in>set w. \<not> is_digit c)
      \<and> is_digit d \<and> (\<forall>c\<in>set (d # rest). \<not> is_space c)
      \<longrightarrow> normalize_iface (w @ d # rest) = Inr (label @ d # rest))
   \<and> normalize_iface ''gi1/0/1'' = normalize_iface ''GigabitEthernet1/0/1''
   \<and> ((\<forall>label\<in>set labels. \<not> re_prefix_ignorecase label iface) \<longrightarrow> normalize_iface iface = Inr iface)"
proof (intro conjI impI)
  assume h: "label \<in> set labels \<and> re_prefix_ignorecase label w \<and> (\<forall>c\<in>set w. \<not> is_digit c)
      \<and> is_digit d \<and> (\<forall>c\<in>set (d # rest). \<not> is_space c)"
  show "normalize_iface (w @ d # rest) = Inr (label @ d # rest)"
    by (rule normalize_canonical) (use h in blast)+
next
  show "normalize_iface ''gi1/0/1'' = normalize_iface ''GigabitEthernet1/0/1''" by code_simp
next
  assume "\<forall>label\<in>set labels. \<not> re_prefix_ignorecase label iface"
  then show "normalize_iface iface = Inr iface" by (rule normalize_unrecognized)
qed

theorem normalize_iface_canonical_witness:
  "''Twe'' \<in> set labels \<and> re_prefix_ignorecase ''Twe'' ''TwentyFiveGigE''
   \<and> normalize_iface ''TwentyFiveGigE1/0/12'' = Inr ''Twe1/0/12''
   \<and> normalize_iface ''Port-channel7'' = Inr ''Port-channel7''"
proof -
  have a: "''Twe'' \<in> set labels \<and> re_prefix_ignorecase ''Twe'' ''TwentyFiveGigE''
      \<and> (\<forall>c\<in>set ''TwentyFiveGigE''. \<not> is_digit c) \<and> is_digit CHR ''1''
      \<and> (\<forall>c\<in>set (CHR ''1'' # ''/0/12''). \<not> is_space c)"
    by code_simp
  have b: "\<forall>label\<in>set labels. \<not> re_prefix_ignorecase label ''Port-channel7''"
    by code_simp
  have c: "normalize_iface (''TwentyFiveGigE'' @ CHR ''1'' # ''/0/12'') = Inr (''Twe'' @ CHR ''1'' # ''/0/12'')"
    using normalize_iface_canonical[of "''Twe''" "''TwentyFiveGigE''" "CHR ''1''" "''/0/12''"] a by blast
  have d: "normalize_iface ''Port-channel7'' = Inr ''Port-channel7''"
    using normalize_iface_canonical[of _ _ _ _ "''Port-channel7''"] b by blast
  from a c d show ?thesis by simp
qed


section \<open>Properties of the consolidation\<close>

lemma refactor_items_append:
  "refactor_items (xs @ ys) st =
     (case refactor_items xs st of Inl e \<Rightarrow> Inl e | Inr st' \<Rightarrow> refactor_items ys st')"
  by (induction xs arbitrary: st) (auto split: sum.splits)

lemma refactor_devices_observations:
  "refactor_devices devices data st = refactor_items (observations devices data) st"
proof (induction devices arbitrary: st)
  case Nil
  then show ?case by (simp add: observations_def)
next
  case (Cons d ds)
  have "observations (d # ds) data =
      (case data d of None \<Rightarrow> [] | Some items \<Rightarrow> items) @ observations ds data"
    by (simp add: observations_def)
  then show ?case using Cons.IH
    by (simp add: refactor_items_append split: sum.splits)
qed

lemma observations_of_snoc:
  "observations_of (xs @ [(m, p)]) m' = observations_of xs m' @ (if m' = m then [p] else [])"
  by (simp add: observations_of_def)

lemma consolidated_snoc:
  "consolidated p0 later
     \<lparr>Switch := Switch (consolidated p0 later) @ [prop_Switch p],
      Interface := Interface (consolidated p0 later) @ [prop_Interface p],
      Speed := Speed (consolidated p0 later) @ [prop_Speed p],
      Duplex := Duplex (consolidated p0 later) @ [prop_Duplex p]\<rparr>
   = consolidated p0 (later @ [p])"
  by (simp add: consolidated_def)

lemma refactor_step_new:
  assumes inv: "refactor_inv xs st" and obs: "observations_of xs m = []"
  shows "\<exists>st'. refactor_step m p st = Inr st' \<and> refactor_inv (xs @ [(m, p)]) st'"
proof -
  from inv obs have none: "mac_to_index st m = None" by (simp add: refactor_inv_def)
  define st' where "st' = \<lparr>ep_idx = ep_idx st + 1,
      refactored = (refactored st)(ep_idx st + 1 \<mapsto> consolidated p []),
      mac_to_index = (mac_to_index st)(m \<mapsto> ep_idx st + 1)\<rparr>"
  have step: "refactor_step m p st = Inr st'"
    using none by (simp add: refactor_step_def st'_def consolidated_def)
  from inv have bound: "\<And>m i. mac_to_index st m = Some i \<Longrightarrow> i \<le> ep_idx st"
    and inj: "\<And>m m' i. mac_to_index st m = Some i \<Longrightarrow> mac_to_index st m' = Some i \<Longrightarrow> m = m'"
    and empty: "\<And>m. observations_of xs m = [] \<Longrightarrow> mac_to_index st m = None"
    and full: "\<And>m p later. observations_of xs m = p # later \<Longrightarrow>
        \<exists>i. mac_to_index st m = Some i \<and> refactored st i = Some (consolidated p later)"
    unfolding refactor_inv_def by blast+
  have "refactor_inv (xs @ [(m, p)]) st'"
    unfolding refactor_inv_def
  proof (intro conjI allI impI)
    fix m' assume "observations_of (xs @ [(m, p)]) m' = []"
    then have "m' \<noteq> m" "observations_of xs m' = []"
      by (auto simp: observations_of_snoc split: if_splits)
    then show "mac_to_index st' m' = None" using empty by (simp add: st'_def)
  next
    fix m' q later assume a: "observations_of (xs @ [(m, p)]) m' = q # later"
    show "\<exists>i. mac_to_index st' m' = Some i \<and> refactored st' i = Some (consolidated q later)"
    proof (cases "m' = m")
      case True
      with a obs have "q = p" "later = []" by (simp_all add: observations_of_snoc)
      with True show ?thesis by (simp add: st'_def)
    next
      case False
      with a have "observations_of xs m' = q # later" by (simp add: observations_of_snoc)
      from full[OF this] obtain i where i: "mac_to_index st m' = Some i"
        "refactored st i = Some (consolidated q later)" by blast
      from bound[OF i(1)] have "i \<noteq> ep_idx st + 1" by simp
      with i False show ?thesis by (simp add: st'_def)
    qed
  next
    fix m' i assume "mac_to_index st' m' = Some i"
    then show "i \<le> ep_idx st'"
      using bound[of m' i] by (auto simp: st'_def split: if_splits)
  next
    fix m1 m2 i assume "mac_to_index st' m1 = Some i" "mac_to_index st' m2 = Some i"
    then show "m1 = m2"
      using bound[of m1 i] bound[of m2 i] inj[of m1 i m2]
      by (auto simp: st'_def split: if_splits)
  qed
  with step show ?thesis by blast
qed

lemma refactor_step_seen:
  assumes inv: "refactor_inv xs st" and obs: "observations_of xs m = p0 # later0"
  shows "\<exists>st'. refactor_step m p st = Inr st' \<and> refactor_inv (xs @ [(m, p)]) st'"
proof -
  from inv have bound: "\<And>m i. mac_to_index st m = Some i \<Longrightarrow> i \<le> ep_idx st"
    and inj: "\<And>m m' i. mac_to_index st m = Some i \<Longrightarrow> mac_to_index st m' = Some i \<Longrightarrow> m = m'"
    and empty: "\<And>m. observations_of xs m = [] \<Longrightarrow> mac_to_index st m = None"
    and full: "\<And>m p later. observations_of xs m = p # later \<Longrightarrow>
        \<exists>i. mac_to_index st m = Some i \<and> refactored st i = Some (consolidated p later)"
    unfolding refactor_inv_def by blast+
  from full[OF obs] obtain idx where idx: "mac_to_index st m = Some idx"
    "refactored st idx = Some (consolidated p0 later0)" by blast
  define st' where "st' = st\<lparr>refactored := (refactored st)(idx \<mapsto> consolidated p0 (later0 @ [p]))\<rparr>"
  have step: "refactor_step m p st = Inr st'"
    using idx by (simp add: refactor_step_def st'_def consolidated_snoc)
  have "refactor_inv (xs @ [(m, p)]) st'"
    unfolding refactor_inv_def
  proof (intro conjI allI impI)
    fix m' assume "observations_of (xs @ [(m, p)]) m' = []"
    then have "observations_of xs m' = []"
      by (auto simp: observations_of_snoc split: if_splits)
    then show "mac_to_index st' m' = None" using empty by (simp add: st'_def)
  next
    fix m' q later assume a: "observations_of (xs @ [(m, p)]) m' = q # later"
    show "\<exists>i. mac_to_index st' m' = Some i \<and> refactored st' i = Some (consolidated q later)"
    proof (cases "m' = m")
      case True
      with a obs have "q = p0" "later = later0 @ [p]" by (simp_all add: observations_of_snoc)
      with True idx show ?thesis by (simp add: st'_def)
    next
      case False
      with a have "observations_of xs m' = q # later" by (simp add: observations_of_snoc)
      from full[OF this] obtain i where i: "mac_to_index st m' = Some i"
        "refactored st i = Some (consolidated q later)" by blast
      from inj[OF i(1), of m] idx(1) False have "i \<noteq> idx" by blast
      with i show ?thesis by (simp add: st'_def)
    qed
  next
    fix m' i assume "mac_to_index st' m' = Some i"
    then show "i \<le> ep_idx st'" using bound[of m' i] by (simp add: st'_def)
  next
    fix m1 m2 i assume "mac_to_index st' m1 = Some i" "mac_to_index st' m2 = Some i"
    then show "m1 = m2" using inj[of m1 i m2] by (simp add: st'_def)
  qed
  with step show ?thesis by blast
qed

lemma refactor_items_inv:
  "\<exists>st. refactor_items xs \<lparr>ep_idx = 0, refactored = Map.empty, mac_to_index = Map.empty\<rparr> = Inr st
        \<and> refactor_inv xs st"
proof (induction xs rule: rev_induct)
  case Nil
  show ?case by (simp add: refactor_inv_def observations_of_def)
next
  case (snoc x xs)
  then obtain st where st: "refactor_items xs \<lparr>ep_idx = 0, refactored = Map.empty, mac_to_index = Map.empty\<rparr> = Inr st"
    "refactor_inv xs st" by blast
  obtain m p where x: "x = (m, p)" by (cases x)
  have "\<exists>st'. refactor_step m p st = Inr st' \<and> refactor_inv (xs @ [(m, p)]) st'"
  proof (cases "observations_of xs m")
    case Nil
    then show ?thesis by (rule refactor_step_new[OF st(2)])
  next
    case (Cons p0 later0)
    then show ?thesis by (rule refactor_step_seen[OF st(2)])
  qed
  then obtain st' where "refactor_step m p st = Inr st'" "refactor_inv (xs @ [(m, p)]) st'" by blast
  then show ?case using st(1) x by (simp add: refactor_items_append)
qed

lemma refactor_data_inv:
  "\<exists>st. refactor_data devices data = Inr st \<and> refactor_inv (observations devices data) st"
  unfolding refactor_data_def refactor_devices_observations by (rule refactor_items_inv)

lemma filter_key_absent:
  "m \<notin> fst ` set items \<Longrightarrow> filter (\<lambda>x. fst x = m) items = []"
  by (induction items) auto

lemma observations_of_dict:
  "distinct (dict_keys items) \<Longrightarrow>
     observations_of items m = (case dict_get items m of None \<Rightarrow> [] | Some p \<Rightarrow> [p])"
proof (induction items)
  case Nil
  show ?case by (simp add: observations_of_def dict_get_def)
next
  case (Cons x items)
  obtain a b where x: "x = (a, b)" by (cases x)
  from Cons.prems have d: "a \<notin> fst ` set items" "distinct (dict_keys items)"
    by (simp_all add: x dict_keys_def)
  show ?case
  proof (cases "a = m")
    case True
    with d(1) have "filter (\<lambda>x. fst x = m) items = []" by (simp add: filter_key_absent)
    with True show ?thesis by (simp add: x observations_of_def dict_get_def)
  next
    case False
    with Cons.IH[OF d(2)] show ?thesis by (simp add: x observations_of_def dict_get_def)
  qed
qed

lemma observations_of_append:
  "observations_of (xs @ ys) m = observations_of xs m @ observations_of ys m"
  by (simp add: observations_of_def)

lemma observations_of_reports:
  "wf_data devices data \<Longrightarrow> observations_of (observations devices data) m = reports_of devices data m"
proof (induction devices)
  case Nil
  show ?case by (simp add: observations_def observations_of_def reports_of_def List.map_filter_simps)
next
  case (Cons d ds)
  from Cons.prems have wf: "wf_data ds data"
    and dd: "case data d of None \<Rightarrow> True | Some items \<Rightarrow> distinct (dict_keys items)"
    by (simp_all add: wf_data_def)
  have split: "observations (d # ds) data =
      (case data d of None \<Rightarrow> [] | Some items \<Rightarrow> items) @ observations ds data"
    by (simp add: observations_def)
  have head: "observations_of (case data d of None \<Rightarrow> [] | Some items \<Rightarrow> items) m =
      (case reported data m d of None \<Rightarrow> [] | Some p \<Rightarrow> [p])"
  proof (cases "data d")
    case None
    then show ?thesis by (simp add: reported_def observations_of_def)
  next
    case (Some items)
    with dd have "distinct (dict_keys items)" by simp
    from observations_of_dict[OF this] Some show ?thesis by (simp add: reported_def)
  qed
  have "reports_of (d # ds) data m =
      (case reported data m d of None \<Rightarrow> [] | Some p \<Rightarrow> [p]) @ reports_of ds data m"
    by (simp add: reports_of_def List.map_filter_simps split: option.splits)
  with Cons.IH[OF wf] head split show ?case by (simp add: observations_of_append)
qed

lemma reports_of_reporting:
  "reports_of devices data m = map (\<lambda>d. the (reported data m d)) (reporting_devices devices data m)"
  by (simp add: reports_of_def reporting_devices_def List.map_filter_def comp_def)

lemma reports_of_nth:
  assumes "i < length (reporting_devices devices data m)"
  shows "reported data m (reporting_devices devices data m ! i) = Some (reports_of devices data m ! i)"
proof -
  have "reporting_devices devices data m ! i \<in> set (reporting_devices devices data m)"
    using assms by simp
  then have "reported data m (reporting_devices devices data m ! i) \<noteq> None"
    by (simp add: reporting_devices_def)
  then show ?thesis using assms by (auto simp: reports_of_reporting)
qed

lemma reporting_devices_card:
  "distinct devices \<Longrightarrow>
     length (reporting_devices devices data m) = card {d \<in> set devices. reported data m d \<noteq> None}"
proof -
  assume "distinct devices"
  then have "distinct (reporting_devices devices data m)" by (simp add: reporting_devices_def)
  then have "length (reporting_devices devices data m) = card (set (reporting_devices devices data m))"
    by (simp add: distinct_card)
  then show ?thesis by (simp add: reporting_devices_def)
qed

lemma consolidated_endpoint:
  assumes "wf_data devices data" and "reports_of devices data mac = p # later"
  shows "\<exists>st idx. refactor_data devices data = Inr st \<and> mac_to_index st mac = Some idx
           \<and> refactored st idx = Some (consolidated p later)"
proof -
  from refactor_data_inv obtain st where st: "refactor_data devices data = Inr st"
    "refactor_inv (observations devices data) st" by blast
  from assms have "observations_of (observations devices data) mac = p # later"
    by (simp add: observations_of_reports)
  with st(2) obtain idx where "mac_to_index st mac = Some idx"
    "refactored st idx = Some (consolidated p later)"
    unfolding refactor_inv_def by blast
  with st(1) show ?thesis by blast
qed

text \<open>
  Claim C1 as stated fails when the device list names a device twice, which the worker does
  not prevent. With the list \<^verbatim>\<open>sw1, sw1, sw3\<close> two devices report the address \<^verbatim>\<open>aa\<close>, yet
  its endpoint has lists of length three, and entry 1 repeats the observation of \<^verbatim>\<open>sw1\<close>
  where the second reporting device is \<^verbatim>\<open>sw3\<close>.
\<close>

theorem consolidated_lists_duplicate_device:
  "\<exists>st idx e. refactor_data [''sw1'', ''sw1'', ''sw3''] sample_data = Inr st
     \<and> mac_to_index st ''aa'' = Some idx \<and> refactored st idx = Some e
     \<and> Switch e = [''SW1'', ''SW1'', ''SW3'']
     \<and> Interface e = [''Gi1/0/1'', ''Gi1/0/1'', ''Gi1/0/3'']
     \<and> length (Switch e) = 3 \<and> length (Interface e) = 3
     \<and> length (Speed e) = 3 \<and> length (Duplex e) = 3
     \<and> card {d \<in> set [''sw1'', ''sw1'', ''sw3'']. reported sample_data ''aa'' d \<noteq> None} = 2
     \<and> remdups (reporting_devices [''sw1'', ''sw1'', ''sw3''] sample_data ''aa'') = [''sw1'', ''sw3'']
     \<and> Switch e ! 1 = ''SW1''
     \<and> reported sample_data ''aa'' ''sw3'' = Some (sample_prop ''aa'' ''SW3'' ''3'' ''h3'')"
proof -
  have wf: "wf_data [''sw1'', ''sw1'', ''sw3''] sample_data"
    by (simp add: wf_data_def sample_data_def dict_keys_def)
  have ro: "reports_of [''sw1'', ''sw1'', ''sw3''] sample_data ''aa'' =
      sample_prop ''aa'' ''SW1'' ''1'' ''h1''
        # [sample_prop ''aa'' ''SW1'' ''1'' ''h1'', sample_prop ''aa'' ''SW3'' ''3'' ''h3'']"
    by (simp add: reports_of_def List.map_filter_simps reported_def sample_data_def dict_get_def)
  from consolidated_endpoint[OF wf ro] obtain st idx where
    st: "refactor_data [''sw1'', ''sw1'', ''sw3''] sample_data = Inr st"
      "mac_to_index st ''aa'' = Some idx"
      "refactored st idx = Some (consolidated (sample_prop ''aa'' ''SW1'' ''1'' ''h1'')
          [sample_prop ''aa'' ''SW1'' ''1'' ''h1'', sample_prop ''aa'' ''SW3'' ''3'' ''h3''])"
    by blast
  let ?e = "consolidated (sample_prop ''aa'' ''SW1'' ''1'' ''h1'')
      [sample_prop ''aa'' ''SW1'' ''1'' ''h1'', sample_prop ''aa'' ''SW3'' ''3'' ''h3'']"
  have sw: "Switch ?e = [''SW1'', ''SW1'', ''SW3'']"
    and ifc: "Interface ?e = [''Gi1/0/1'', ''Gi1/0/1'', ''Gi1/0/3'']"
    and len: "length (Speed ?e) = 3" "length (Duplex ?e) = 3"
    by (simp_all add: consolidated_def sample_prop_def)
  have rd: "reporting_devices [''sw1'', ''sw1'', ''sw3''] sample_data ''aa'' = [''sw1'', ''sw1'', ''sw3'']"
    by (simp add: reporting_devices_def reported_def sample_data_def dict_get_def)
  have "{d \<in> set [''sw1'', ''sw1'', ''sw3'']. reported sample_data ''aa'' d \<noteq> None}
      = set (reporting_devices [''sw1'', ''sw1'', ''sw3''] sample_data ''aa'')"
    unfolding reporting_devices_def by (rule set_filter[symmetric])
  then have card: "card {d \<in> set [''sw1'', ''sw1'', ''sw3'']. reported sample_data ''aa'' d \<noteq> None} = 2"
    by (simp add: rd)
  have rem: "remdups (reporting_devices [''sw1'', ''sw1'', ''sw3''] sample_data ''aa'') = [''sw1'', ''sw3'']"
    by (simp add: rd)
  have third: "reported sample_data ''aa'' ''sw3'' = Some (sample_prop ''aa'' ''SW3'' ''3'' ''h3'')"
    by (simp add: reported_def sample_data_def dict_get_def)
  have l3: "length (Switch ?e) = 3" "length (Interface ?e) = 3" "Switch ?e ! 1 = ''SW1''"
    by (simp_all add: sw ifc)
  from st sw ifc l3 len card rem third show ?thesis by blast
qed

text \<open>
  Claim C1, amended. For a MAC address reported by the devices of the list (in particular by
  two distinct devices), consolidation ends without an exception and the endpoint stored for
  the address has four lists of equal length, the number of entries of the device list that
  report the address (a device listed twice counts twice; this is the number of reporting
  devices when the list names no device twice); entry \<open>i\<close> of each list is taken from the
  observation of the \<open>i\<close>-th reporting entry in device-list order.
\<close>

theorem consolidated_lists_by_device:
  assumes "wf_data devices data" and "reporting_devices devices data mac \<noteq> []"
  shows "\<exists>st idx e. refactor_data devices data = Inr st \<and> mac_to_index st mac = Some idx
           \<and> refactored st idx = Some e
           \<and> Switch e = map prop_Switch (reports_of devices data mac)
           \<and> Interface e = map prop_Interface (reports_of devices data mac)
           \<and> Speed e = map prop_Speed (reports_of devices data mac)
           \<and> Duplex e = map prop_Duplex (reports_of devices data mac)
           \<and> length (Switch e) = length (reporting_devices devices data mac)
           \<and> length (Interface e) = length (reporting_devices devices data mac)
           \<and> length (Speed e) = length (reporting_devices devices data mac)
           \<and> length (Duplex e) = length (reporting_devices devices data mac)
           \<and> (\<forall>i < length (reporting_devices devices data mac).
                 reported data mac (reporting_devices devices data mac ! i)
                   = Some (reports_of devices data mac ! i))
           \<and> (distinct devices \<longrightarrow>
                 length (reporting_devices devices data mac)
                   = card {d \<in> set devices. reported data mac d \<noteq> None})"
proof -
  have len: "length (reports_of devices data mac) = length (reporting_devices devices data mac)"
    by (simp add: reports_of_reporting)
  with assms(2) obtain p later where pl: "reports_of devices data mac = p # later"
    by (cases "reports_of devices data mac") auto
  from consolidated_endpoint[OF assms(1) pl] obtain st idx where
    st: "refactor_data devices data = Inr st" "mac_to_index st mac = Some idx"
      "refactored st idx = Some (consolidated p later)" by blast
  let ?e = "consolidated p later"
  have fields: "Switch ?e = map prop_Switch (reports_of devices data mac)"
    "Interface ?e = map prop_Interface (reports_of devices data mac)"
    "Speed ?e = map prop_Speed (reports_of devices data mac)"
    "Duplex ?e = map prop_Duplex (reports_of devices data mac)"
    by (simp_all add: consolidated_def pl)
  have lens: "length (Switch ?e) = length (reporting_devices devices data mac)"
    "length (Interface ?e) = length (reporting_devices devices data mac)"
    "length (Speed ?e) = length (reporting_devices devices data mac)"
    "length (Duplex ?e) = length (reporting_devices devices data mac)"
    using len by (simp_all add: fields)
  have nth: "\<forall>i < length (reporting_devices devices data mac).
      reported data mac (reporting_devices devices data mac ! i) = Some (reports_of devices data mac ! i)"
    using reports_of_nth by blast
  have card: "distinct devices \<longrightarrow>
      length (reporting_devices devices data mac) = card {d \<in> set devices. reported data mac d \<noteq> None}"
    using reporting_devices_card by blast
  from st fields lens nth card show ?thesis by blast
qed

theorem consolidated_lists_by_device_witness:
  "\<exists>st idx e. refactor_data sample_devices sample_data = Inr st \<and> mac_to_index st ''aa'' = Some idx
     \<and> refactored st idx = Some e
     \<and> Switch e = [''SW1'', ''SW3''] \<and> Interface e = [''Gi1/0/1'', ''Gi1/0/3'']
     \<and> Speed e = [''a-1000'', ''a-1000''] \<and> Duplex e = [''a-full'', ''a-full'']
     \<and> reporting_devices sample_devices sample_data ''aa'' = [''sw1'', ''sw3'']"
proof -
  have wf: "wf_data sample_devices sample_data"
    by (simp add: wf_data_def sample_devices_def sample_data_def dict_keys_def)
  have rd: "reporting_devices sample_devices sample_data ''aa'' = [''sw1'', ''sw3'']"
    by (simp add: reporting_devices_def reported_def sample_devices_def sample_data_def dict_get_def)
  have ro: "reports_of sample_devices sample_data ''aa'' =
      [sample_prop ''aa'' ''SW1'' ''1'' ''h1'', sample_prop ''aa'' ''SW3'' ''3'' ''h3'']"
    by (simp add: reports_of_reporting rd) (simp add: reported_def sample_data_def dict_get_def)
  have ne: "reporting_devices sample_devices sample_data ''aa'' \<noteq> []" by (simp add: rd)
  from consolidated_lists_by_device[OF wf ne] obtain st idx e where
    h: "refactor_data sample_devices sample_data = Inr st" "mac_to_index st ''aa'' = Some idx"
      "refactored st idx = Some e"
      "Switch e = map prop_Switch (reports_of sample_devices sample_data ''aa'')"
      "Interface e = map prop_Interface (reports_of sample_devices sample_data ''aa'')"
      "Speed e = map prop_Speed (reports_of sample_devices sample_data ''aa'')"
      "Duplex e = map prop_Duplex (reports_of sample_devices sample_data ''aa'')"
    by blast
  have "Switch e = [''SW1'', ''SW3'']" "Interface e = [''Gi1/0/1'', ''Gi1/0/3'']"
    "Speed e = [''a-1000'', ''a-1000'']" "Duplex e = [''a-full'', ''a-full'']"
    by (simp_all add: h ro sample_prop_def)
  with h(1,2,3) rd show ?thesis by blast
qed

text \<open>
  Claim C10. When several devices report a MAC address, with \<open>p\<close> the observation of the
  first reporting device in device-list order and \<open>later\<close> those of the later ones, the
  consolidated endpoint takes \<^verbatim>\<open>MAC Address\<close>, \<^verbatim>\<open>Vendor\<close>, \<^verbatim>\<open>Hostname\<close>,
  \<^verbatim>\<open>IP Address\<close> and \<^verbatim>\<open>Vlan\<close> from \<open>p\<close> alone; the later observations only extend the
  four lists.
\<close>

theorem consolidated_scalars_from_first:
  assumes "wf_data devices data" and "reports_of devices data mac = p # later"
  shows "\<exists>st idx e. refactor_data devices data = Inr st \<and> mac_to_index st mac = Some idx
           \<and> refactored st idx = Some e
           \<and> reported data mac (hd (reporting_devices devices data mac)) = Some p
           \<and> MAC_Address e = prop_MAC_Address p
           \<and> Vendor e = prop_Vendor p
           \<and> Hostname e = prop_Hostname p
           \<and> IP_Address e = prop_IP_Address p
           \<and> Vlan e = prop_Vlan p
           \<and> Switch e = prop_Switch p # map prop_Switch later
           \<and> Interface e = prop_Interface p # map prop_Interface later
           \<and> Speed e = prop_Speed p # map prop_Speed later
           \<and> Duplex e = prop_Duplex p # map prop_Duplex later"
proof -
  from consolidated_endpoint[OF assms] obtain st idx where
    st: "refactor_data devices data = Inr st" "mac_to_index st mac = Some idx"
      "refactored st idx = Some (consolidated p later)" by blast
  have len: "length (reports_of devices data mac) = length (reporting_devices devices data mac)"
    by (simp add: reports_of_reporting)
  have pos: "0 < length (reporting_devices devices data mac)"
    using len assms(2) by (cases "reporting_devices devices data mac") simp_all
  then have "hd (reporting_devices devices data mac) = reporting_devices devices data mac ! 0"
    by (simp add: hd_conv_nth)
  with reports_of_nth[OF pos] assms(2)
  have first: "reported data mac (hd (reporting_devices devices data mac)) = Some p"
    by simp
  let ?e = "consolidated p later"
  have "MAC_Address ?e = prop_MAC_Address p" "Vendor ?e = prop_Vendor p"
    "Hostname ?e = prop_Hostname p" "IP_Address ?e = prop_IP_Address p" "Vlan ?e = prop_Vlan p"
    "Switch ?e = prop_Switch p # map prop_Switch later"
    "Interface ?e = prop_Interface p # map prop_Interface later"
    "Speed ?e = prop_Speed p # map prop_Speed later"
    "Duplex ?e = prop_Duplex p # map prop_Duplex later"
    by (simp_all add: consolidated_def)
  with st first show ?thesis by blast
qed

theorem consolidated_scalars_from_first_witness:
  "\<exists>st idx e. refactor_data sample_devices sample_data = Inr st \<and> mac_to_index st ''aa'' = Some idx
     \<and> refactored st idx = Some e
     \<and> MAC_Address e = ''aa'' \<and> Vendor e = ''Unknown'' \<and> Hostname e = ''h1''
     \<and> IP_Address e = ''10.0.0.1'' \<and> Vlan e = ''10''
     \<and> Switch e = [''SW1'', ''SW3''] \<and> Interface e = [''Gi1/0/1'', ''Gi1/0/3'']"
proof -
  have wf: "wf_data sample_devices sample_data"
    by (simp add: wf_data_def sample_devices_def sample_data_def dict_keys_def)
  have ro: "reports_of sample_devices sample_data ''aa'' =
      sample_prop ''aa'' ''SW1'' ''1'' ''h1'' # [sample_prop ''aa'' ''SW3'' ''3'' ''h3'']"
    by (simp add: reports_of_def List.map_filter_simps reported_def sample_devices_def
        sample_data_def dict_get_def)
  from consolidated_scalars_from_first[OF wf ro] obtain st idx e where
    h: "refactor_data sample_devices sample_data = Inr st" "mac_to_index st ''aa'' = Some idx"
      "refactored st idx = Some e"
      "MAC_Address e = prop_MAC_Address (sample_prop ''aa'' ''SW1'' ''1'' ''h1'')"
      "Vendor e = prop_Vendor (sample_prop ''aa'' ''SW1'' ''1'' ''h1'')"
      "Hostname e = prop_Hostname (sample_prop ''aa'' ''SW1'' ''1'' ''h1'')"
      "IP_Address e = prop_IP_Address (sample_prop ''aa'' ''SW1'' ''1'' ''h1'')"
      "Vlan e = prop_Vlan (sample_prop ''aa'' ''SW1'' ''1'' ''h1'')"
      "Switch e = prop_Switch (sample_prop ''aa'' ''SW1'' ''1'' ''h1'')
         # map prop_Switch [sample_prop ''aa'' ''SW3'' ''3'' ''h3'']"
      "Interface e = prop_Interface (sample_prop ''aa'' ''SW1'' ''1'' ''h1'')
         # map prop_Interface [sample_prop ''aa'' ''SW3'' ''3'' ''h3'']"
    by blast
  have "MAC_Address e = ''aa''" "Vendor e = ''Unknown''" "Hostname e = ''h1''"
    "IP_Address e = ''10.0.0.1''" "Vlan e = ''10''"
    "Switch e = [''SW1'', ''SW3'']" "Interface e = [''Gi1/0/1'', ''Gi1/0/3'']"
    by (simp_all add: h sample_prop_def)
  with h(1,2,3) show ?thesis by blast
qed


section \<open>Properties of the comparison\<close>

lemma dict_set_fresh: "k \<notin> set (dict_keys d) \<Longrightarrow> dict_set d k v = d @ [(k, v)]"
  by (induction d) (auto simp: dict_keys_def)

lemma dict_keys_dict_set:
  "dict_keys (dict_set d k v) = (if k \<in> set (dict_keys d) then dict_keys d else dict_keys d @ [k])"
  by (induction d) (force simp: dict_keys_def)+

lemma distinct_dict_set: "distinct (dict_keys d) \<Longrightarrow> distinct (dict_keys (dict_set d k v))"
  by (simp add: dict_keys_dict_set)

lemma distinct_fold_dict_set:
  "distinct (dict_keys d) \<Longrightarrow> distinct (dict_keys (fold (\<lambda>x d. dict_set d (f x) (g x)) xs d))"
  by (induction xs arbitrary: d) (simp_all add: distinct_dict_set)

lemma distinct_rekey: "distinct (dict_keys (rekey eps))"
  unfolding rekey_def by (rule distinct_fold_dict_set) (simp add: dict_keys_def)

lemma compare_pre_loop_eq:
  "distinct (dict_keys xs) \<Longrightarrow> set (dict_keys xs) \<inter> set (dict_keys cd) = {} \<Longrightarrow>
     compare_pre_loop xs post cd = cd @ map (\<lambda>(m, e). (m, pre_row m e (dict_get post m))) xs"
proof (induction xs arbitrary: cd)
  case Nil
  show ?case by simp
next
  case (Cons x xs)
  obtain m e where x: "x = (m, e)" by (cases x)
  from Cons.prems have fresh: "m \<notin> set (dict_keys cd)" and d: "distinct (dict_keys xs)"
    and m: "m \<notin> set (dict_keys xs)" and disj: "set (dict_keys xs) \<inter> set (dict_keys cd) = {}"
    by (auto simp: x dict_keys_def)
  let ?cd = "cd @ [(m, pre_row m e (dict_get post m))]"
  have "set (dict_keys xs) \<inter> set (dict_keys ?cd) = {}"
    using disj m by (auto simp: dict_keys_def)
  from Cons.IH[OF d this] show ?case
    by (simp add: x dict_set_fresh[OF fresh])
qed

lemma compare_post_loop_eq:
  "distinct (dict_keys xs) \<Longrightarrow> set (dict_keys xs) \<inter> set (dict_keys cd) \<subseteq> set (dict_keys pre) \<Longrightarrow>
     compare_post_loop xs pre cd =
       cd @ map (\<lambda>(m, e). (m, new_row m e)) (filter (\<lambda>(m, e). m \<notin> set (dict_keys pre)) xs)"
proof (induction xs arbitrary: cd)
  case Nil
  show ?case by simp
next
  case (Cons x xs)
  obtain m e where x: "x = (m, e)" by (cases x)
  from Cons.prems have d: "distinct (dict_keys xs)" and m: "m \<notin> set (dict_keys xs)"
    and sub: "set (dict_keys xs) \<inter> set (dict_keys cd) \<subseteq> set (dict_keys pre)"
    and mcd: "m \<in> set (dict_keys cd) \<Longrightarrow> m \<in> set (dict_keys pre)"
    by (auto simp: x dict_keys_def)
  show ?case
  proof (cases "m \<in> set (dict_keys pre)")
    case True
    with Cons.IH[OF d sub] show ?thesis by (simp add: x)
  next
    case False
    with mcd have fresh: "m \<notin> set (dict_keys cd)" by blast
    let ?cd = "cd @ [(m, new_row m e)]"
    have "set (dict_keys xs) \<inter> set (dict_keys ?cd) \<subseteq> set (dict_keys pre)"
      using sub m by (auto simp: dict_keys_def)
    from Cons.IH[OF d this] False show ?thesis
      by (simp add: x dict_set_fresh[OF fresh])
  qed
qed

lemma compare_snapshots_eq:
  assumes "distinct (dict_keys pre)" and "distinct (dict_keys post)"
  shows "compare_snapshots pre post =
     map (\<lambda>(m, e). (m, pre_row m e (dict_get post m))) pre
     @ map (\<lambda>(m, e). (m, new_row m e)) (filter (\<lambda>(m, e). m \<notin> set (dict_keys pre)) post)"
proof -
  have a: "compare_pre_loop pre post [] = map (\<lambda>(m, e). (m, pre_row m e (dict_get post m))) pre"
    using compare_pre_loop_eq[OF assms(1), of "[]" post] by (simp add: dict_keys_def)
  have "dict_keys (map (\<lambda>(m, e). (m, pre_row m e (dict_get post m))) pre) = dict_keys pre"
    by (induction pre) (auto simp: dict_keys_def)
  then have "set (dict_keys post) \<inter> set (dict_keys (compare_pre_loop pre post [])) \<subseteq> set (dict_keys pre)"
    by (auto simp: a)
  from compare_post_loop_eq[OF assms(2) this] show ?thesis
    by (simp add: compare_snapshots_def a)
qed

lemma dict_keys_compare:
  assumes "distinct (dict_keys pre)" and "distinct (dict_keys post)"
  shows "dict_keys (compare_snapshots pre post) =
     dict_keys pre @ filter (\<lambda>m. m \<notin> set (dict_keys pre)) (dict_keys post)"
proof -
  have a: "map fst (map (\<lambda>(m, e). (m, pre_row m e (dict_get post m))) pre) = map fst pre"
    by (induction pre) auto
  have b: "map fst (map (\<lambda>(m, e). (m, new_row m e)) (filter (\<lambda>(m, e). m \<notin> set (dict_keys pre)) post))
      = filter (\<lambda>m. m \<notin> set (dict_keys pre)) (map fst post)"
    by (induction post) auto
  show ?thesis
    unfolding compare_snapshots_eq[OF assms] dict_keys_def[of "_ @ _"] map_append a b
    by (simp add: dict_keys_def)
qed

lemma Observation_pre_row:
  "val (Observation (pre_row m e post)) = Str (expected_observation True (post \<noteq> None))"
  "val (Address (pre_row m e post)) = Str m"
  by (simp_all add: pre_row_def expected_observation_def Let_def split: option.splits)

lemma Observation_new_row:
  "val (Observation (new_row m e)) = Str (expected_observation False True)"
  "val (Address (new_row m e)) = Str m"
  by (simp_all add: new_row_def expected_observation_def)

lemma dict_get_None_iff: "dict_get d k = None \<longleftrightarrow> k \<notin> set (dict_keys d)"
  by (simp add: dict_get_def dict_keys_def map_of_eq_None_iff)

text \<open>
  Claim C2. For snapshots keyed by MAC address, the comparison holds exactly one row per
  address of either snapshot: the addresses of Pre in Pre's order, then the addresses only in
  Post in Post's order; and the row of an address is classified \<^verbatim>\<open>MAC Learnt\<close> when it is in
  both snapshots, \<^verbatim>\<open>MAC Not Learnt\<close> when only in Pre, \<^verbatim>\<open>New MAC\<close> when only in Post.
\<close>

theorem compare_rows_order_and_observation:
  assumes "distinct (dict_keys pre)" and "distinct (dict_keys post)"
  shows "dict_keys (compare_snapshots pre post)
           = dict_keys pre @ filter (\<lambda>m. m \<notin> set (dict_keys pre)) (dict_keys post)
         \<and> distinct (dict_keys (compare_snapshots pre post))
         \<and> set (dict_keys (compare_snapshots pre post)) = set (dict_keys pre) \<union> set (dict_keys post)
         \<and> (\<forall>(m, r) \<in> set (compare_snapshots pre post).
              val (Address r) = Str m
              \<and> val (Observation r)
                  = Str (expected_observation (m \<in> set (dict_keys pre)) (m \<in> set (dict_keys post))))"
proof (intro conjI)
  show keys: "dict_keys (compare_snapshots pre post)
      = dict_keys pre @ filter (\<lambda>m. m \<notin> set (dict_keys pre)) (dict_keys post)"
    by (rule dict_keys_compare[OF assms])
  show "distinct (dict_keys (compare_snapshots pre post))"
    unfolding keys using assms by auto
  show "set (dict_keys (compare_snapshots pre post)) = set (dict_keys pre) \<union> set (dict_keys post)"
    unfolding keys by auto
  show "\<forall>(m, r) \<in> set (compare_snapshots pre post).
      val (Address r) = Str m
      \<and> val (Observation r)
          = Str (expected_observation (m \<in> set (dict_keys pre)) (m \<in> set (dict_keys post)))"
  proof (clarify)
    fix m r assume "(m, r) \<in> set (compare_snapshots pre post)"
    then consider e where "(m, e) \<in> set pre" "r = pre_row m e (dict_get post m)"
      | e where "(m, e) \<in> set post" "m \<notin> set (dict_keys pre)" "r = new_row m e"
      unfolding compare_snapshots_eq[OF assms] by auto
    then show "val (Address r) = Str m
      \<and> val (Observation r)
          = Str (expected_observation (m \<in> set (dict_keys pre)) (m \<in> set (dict_keys post)))"
    proof cases
      case 1
      then have "m \<in> set (dict_keys pre)" by (force simp: dict_keys_def)
      with 1(2) show ?thesis
        using dict_get_None_iff[of post m] by (simp add: Observation_pre_row)
    next
      case 2
      then have "m \<in> set (dict_keys post)" by (force simp: dict_keys_def)
      with 2(2,3) show ?thesis by (simp add: Observation_new_row)
    qed
  qed
qed

theorem compare_rows_order_and_observation_witness:
  "dict_keys (compare_snapshots (rekey sample_pre) (rekey sample_post)) = [''m2'', ''m1'', ''m3'']
   \<and> distinct (dict_keys (compare_snapshots (rekey sample_pre) (rekey sample_post)))
   \<and> map (\<lambda>(m, r). val (Observation r)) (compare_snapshots (rekey sample_pre) (rekey sample_post))
       = [Str ''MAC Not Learnt'', Str ''MAC Learnt'', Str ''New MAC'']"
proof -
  have pre: "dict_keys (rekey sample_pre) = [''m2'', ''m1'']"
    by (simp add: rekey_def sample_pre_def sample_endpoint_def dict_keys_def)
  have post: "dict_keys (rekey sample_post) = [''m3'', ''m1'']"
    by (simp add: rekey_def sample_post_def sample_endpoint_def dict_keys_def)
  note inst = compare_rows_order_and_observation[OF distinct_rekey distinct_rekey,
      of sample_pre sample_post]
  from inst have keys: "dict_keys (compare_snapshots (rekey sample_pre) (rekey sample_post))
      = [''m2'', ''m1'', ''m3'']"
    by (simp add: pre post)
  from inst have dist: "distinct (dict_keys (compare_snapshots (rekey sample_pre) (rekey sample_post)))"
    by blast
  have obs: "map (\<lambda>(m, r). val (Observation r)) (compare_snapshots (rekey sample_pre) (rekey sample_post))
       = [Str ''MAC Not Learnt'', Str ''MAC Learnt'', Str ''New MAC'']"
    by (simp add: compare_snapshots_def rekey_def sample_pre_def sample_post_def
        sample_endpoint_def dict_keys_def dict_get_def pre_row_def new_row_def)
  from keys dist obs show ?thesis by blast
qed

lemma map_of_map_row:
  "map_of (map (\<lambda>(m, e). (m, f m e)) xs) k = map_option (f k) (map_of xs k)"
  by (induction xs) auto

lemma dict_get_compare_pre:
  assumes "distinct (dict_keys pre)" and "distinct (dict_keys post)"
    and "dict_get pre mac = Some pre_ep"
  shows "dict_get (compare_snapshots pre post) mac = Some (pre_row mac pre_ep (dict_get post mac))"
  using assms(3) unfolding compare_snapshots_eq[OF assms(1,2)] dict_get_def
  by (simp add: map_of_map_row)

text \<open>
  Claim C3. For a MAC address present in both snapshots, the cells \<^verbatim>\<open>Post-Speed\<close>,
  \<^verbatim>\<open>Post-Duplex\<close>, \<^verbatim>\<open>Post-Vlan\<close>, \<^verbatim>\<open>Post-IP\<close> and \<^verbatim>\<open>Post-Hostname\<close> of its row carry the
  Post value, with format \<open>ftNormal\<close> when the Pre and Post values are equal and \<open>ftBad\<close>
  when they differ; \<^verbatim>\<open>Post-Device\<close> and \<^verbatim>\<open>Post-Interface\<close> carry the Post value with
  format \<open>ftNormal\<close> whatever the Pre value.
\<close>

theorem compare_learnt_attributes:
  assumes "distinct (dict_keys pre)" and "distinct (dict_keys post)"
    and "dict_get pre mac = Some pre_ep" and "dict_get post mac = Some post_ep"
  shows "\<exists>r. dict_get (compare_snapshots pre post) mac = Some r
     \<and> Post_Speed r = \<lparr>val = StrList (Speed post_ep),
          cellFormat = (if Speed pre_ep = Speed post_ep then ftNormal else ftBad)\<rparr>
     \<and> Post_Duplex r = \<lparr>val = StrList (Duplex post_ep),
          cellFormat = (if Duplex pre_ep = Duplex post_ep then ftNormal else ftBad)\<rparr>
     \<and> Post_Vlan r = \<lparr>val = Str (Vlan post_ep),
          cellFormat = (if Vlan pre_ep = Vlan post_ep then ftNormal else ftBad)\<rparr>
     \<and> Post_IP r = \<lparr>val = Str (IP_Address post_ep),
          cellFormat = (if IP_Address pre_ep = IP_Address post_ep then ftNormal else ftBad)\<rparr>
     \<and> Post_Hostname r = \<lparr>val = Str (Hostname post_ep),
          cellFormat = (if Hostname pre_ep = Hostname post_ep then ftNormal else ftBad)\<rparr>
     \<and> Post_Device r = \<lparr>val = StrList (Switch post_ep), cellFormat = ftNormal\<rparr>
     \<and> Post_Interface r = \<lparr>val = StrList (Interface post_ep), cellFormat = ftNormal\<rparr>"
proof -
  let ?r = "pre_row mac pre_ep (Some post_ep)"
  have "dict_get (compare_snapshots pre post) mac = Some ?r"
    using dict_get_compare_pre[OF assms(1,2,3)] assms(4) by simp
  moreover have "Post_Speed ?r = \<lparr>val = StrList (Speed post_ep),
          cellFormat = (if Speed pre_ep = Speed post_ep then ftNormal else ftBad)\<rparr>"
    by (simp add: pre_row_def match_attribute_def)
  moreover have "Post_Duplex ?r = \<lparr>val = StrList (Duplex post_ep),
          cellFormat = (if Duplex pre_ep = Duplex post_ep then ftNormal else ftBad)\<rparr>"
    by (simp add: pre_row_def match_attribute_def)
  moreover have "Post_Vlan ?r = \<lparr>val = Str (Vlan post_ep),
          cellFormat = (if Vlan pre_ep = Vlan post_ep then ftNormal else ftBad)\<rparr>"
    by (simp add: pre_row_def match_attribute_def)
  moreover have "Post_IP ?r = \<lparr>val = Str (IP_Address post_ep),
          cellFormat = (if IP_Address pre_ep = IP_Address post_ep then ftNormal else ftBad)\<rparr>"
    by (simp add: pre_row_def match_attribute_def)
  moreover have "Post_Hostname ?r = \<lparr>val = Str (Hostname post_ep),
          cellFormat = (if Hostname pre_ep = Hostname post_ep then ftNormal else ftBad)\<rparr>"
    by (simp add: pre_row_def match_attribute_def)
  moreover have "Post_Device ?r = \<lparr>val = StrList (Switch post_ep), cellFormat = ftNormal\<rparr>"
    by (simp add: pre_row_def)
  moreover have "Post_Interface ?r = \<lparr>val = StrList (Interface post_ep), cellFormat = ftNormal\<rparr>"
    by (simp add: pre_row_def)
  ultimately show ?thesis by blast
qed

theorem compare_learnt_attributes_witness:
  "\<exists>r. dict_get (compare_snapshots (rekey sample_pre) (rekey sample_post)) ''m1'' = Some r
     \<and> Post_Speed r = \<lparr>val = StrList [''10G''], cellFormat = ftBad\<rparr>
     \<and> Post_Duplex r = \<lparr>val = StrList [''a-full''], cellFormat = ftNormal\<rparr>
     \<and> Post_Vlan r = \<lparr>val = Str ''10'', cellFormat = ftNormal\<rparr>
     \<and> Post_Device r = \<lparr>val = StrList [''SW1''], cellFormat = ftNormal\<rparr>"
proof -
  have pre: "dict_get (rekey sample_pre) ''m1'' = Some (sample_endpoint ''m1'' ''1G'')"
    by (simp add: rekey_def sample_pre_def sample_endpoint_def dict_get_def)
  have post: "dict_get (rekey sample_post) ''m1'' = Some (sample_endpoint ''m1'' ''10G'')"
    by (simp add: rekey_def sample_post_def sample_endpoint_def dict_get_def)
  from compare_learnt_attributes[OF distinct_rekey distinct_rekey pre post]
  obtain r where "dict_get (compare_snapshots (rekey sample_pre) (rekey sample_post)) ''m1'' = Some r"
    "Post_Speed r = \<lparr>val = StrList [''10G''], cellFormat = ftBad\<rparr>"
    "Post_Duplex r = \<lparr>val = StrList [''a-full''], cellFormat = ftNormal\<rparr>"
    "Post_Vlan r = \<lparr>val = Str ''10'', cellFormat = ftNormal\<rparr>"
    "Post_Device r = \<lparr>val = StrList [''SW1''], cellFormat = ftNormal\<rparr>"
    by (auto simp: sample_endpoint_def)
  then show ?thesis by blast
qed


section \<open>The refresh of the vendor registry\<close>

lemma load_mac_vendor_cached:
  "vendor_file env = Some cache \<Longrightarrow> timedelta_days (now env) (module_mtime env) \<le> 90 \<Longrightarrow>
     load_mac_vendor env = Inr \<lparr>fetched = False, oui_data = cache\<rparr>"
  by (simp add: load_mac_vendor_def)

text \<open>
  Claim C4, at two inputs where the code departs from it. With a cache artifact 200 days old
  and a module file one day old, the claim asks for a refresh and the code uses the old
  cache; with a cache artifact one day old and a module file 200 days old, the claim asks
  for the cache as it is and the code fetches the registry.
\<close>

theorem load_mac_vendor_tests_module_age:
  "spec_refresh old_cache_env
   \<and> load_mac_vendor old_cache_env
       = Inr \<lparr>fetched = False, oui_data = [(''00000C'', ''Cisco Systems, Inc'')]\<rparr>
   \<and> \<not> spec_refresh old_module_env
   \<and> load_mac_vendor old_module_env
       = Inr \<lparr>fetched = True, oui_data = [(''00000C'', ''Cisco Systems, Inc'')]\<rparr>"
proof (intro conjI)
  show "spec_refresh old_cache_env"
    by (simp add: spec_refresh_def old_cache_env_def timedelta_days_def)
  show "load_mac_vendor old_cache_env
       = Inr \<lparr>fetched = False, oui_data = [(''00000C'', ''Cisco Systems, Inc'')]\<rparr>"
    by (rule load_mac_vendor_cached) (simp_all add: old_cache_env_def timedelta_days_def)
  show "\<not> spec_refresh old_module_env"
    by (simp add: spec_refresh_def old_module_env_def timedelta_days_def)
  have "parse_oui [''00000C     (base 16)  Cisco Systems, Inc'', ''no entry here''] []
      = [(''00000C'', ''Cisco Systems, Inc'')]"
    by code_simp
  then show "load_mac_vendor old_module_env
       = Inr \<lparr>fetched = True, oui_data = [(''00000C'', ''Cisco Systems, Inc'')]\<rparr>"
    by (simp add: load_mac_vendor_def old_module_env_def timedelta_days_def)
qed


section \<open>A failed session does not disturb the collection\<close>
















section \<open>The snapshot directory scan\<close>

lemma scan_files_append:
  "scan_files w (fs1 @ fs2) st = scan_files w fs2 (scan_files w fs1 st)"
  by (induction fs1 arbitrary: st) auto

lemma scan_file_no_match: "snapshot_match file = None \<Longrightarrow> scan_file w file st = st"
  by (simp add: scan_file_def)

lemma snapshots_table_scan_files:
  assumes "\<And>slot. table_raises w slot = None"
  shows "snapshots_table (scan_files w files st) =
     snapshots_table st @ map (\<lambda>(g1, g2, g3). (g2, g1, g3)) (List.map_filter snapshot_match files)"
proof (induction files arbitrary: st)
  case Nil
  show ?case by (simp add: List.map_filter_simps)
next
  case (Cons x xs)
  show ?case
  proof (cases "snapshot_match x")
    case None
    then show ?thesis
      by (simp add: Cons.IH scan_file_no_match List.map_filter_simps)
  next
    case (Some g)
    obtain g1 g2 g3 where g: "g = (g1, g2, g3)" by (cases g)
    have "snapshots_table (scan_file w x st) = snapshots_table st @ [(g2, g1, g3)]"
      by (simp add: scan_file_def Some g add_snapshot_def assms Let_def)
    then show ?thesis
      by (simp add: Cons.IH Some g List.map_filter_simps)
  qed
qed

text \<open>
  Claim C8 as stated fails in one point: a file whose name does not match the pattern is
  skipped, but nothing is logged for it. After the scan of a directory that holds only
  \<^verbatim>\<open>notes.txt\<close>, the log holds the record of the start of the scan and no other.
\<close>

theorem scan_skips_without_log:
  "snapshot_match ''notes.txt'' = None
   \<and> ui_log (scan_snapshots (sample_ui_env\<lparr>listdir := Some [''notes.txt'']\<rparr>) initial_ui)
       = [Debug ''Scanning snapshots in: out/Snapshots'']
   \<and> snapshots_table (scan_snapshots (sample_ui_env\<lparr>listdir := Some [''notes.txt'']\<rparr>) initial_ui) = []"
proof -
  have m: "snapshot_match ''notes.txt'' = None" by code_simp
  then show ?thesis
    by (simp add: scan_snapshots_def sample_ui_env_def initial_ui_def scan_file_no_match)
qed

text \<open>
  Claim C8, amended. A file whose name does not match the pattern leaves the scan as if the
  file were not there: no exception, no table row and no log record, and the files after it
  are scanned. Every file that matches is handed to \<^verbatim>\<open>add_snapshot\<close> with its three groups:
  when the table accepts the row, the row is added; when \<^verbatim>\<open>add_snapshot\<close> raises, the
  exception is caught and logged and the scan goes on.
\<close>

theorem scan_skips_unmatched_files:
  "(snapshot_match file = None \<longrightarrow>
      scan_files w (before @ file # after) st = scan_files w (before @ after) st)
   \<and> (snapshot_match file = Some (g1, g2, g3)
        \<and> table_raises w \<lparr>slot_timestamp = g3, slot_type = g1, slot_name = g2\<rparr> = None \<longrightarrow>
      snapshots_table (scan_file w file st) = snapshots_table st @ [(g2, g1, g3)]
      \<and> scan_files w (file # after) st = scan_files w after (scan_file w file st))
   \<and> (snapshot_match file = Some (g1, g2, g3)
        \<and> table_raises w \<lparr>slot_timestamp = g3, slot_type = g1, slot_name = g2\<rparr> = Some e \<longrightarrow>
      snapshots_table (scan_file w file st) = snapshots_table st
      \<and> ui_log (scan_file w file st) = ui_log st @ [UnableToAdd file e]
      \<and> scan_files w (file # after) st = scan_files w after (scan_file w file st))
   \<and> ((\<forall>slot. table_raises w slot = None) \<longrightarrow>
      snapshots_table (scan_files w files st) =
        snapshots_table st @ map (\<lambda>(g1, g2, g3). (g2, g1, g3)) (List.map_filter snapshot_match files))"
proof (intro conjI impI)
  assume "snapshot_match file = None"
  then show "scan_files w (before @ file # after) st = scan_files w (before @ after) st"
    by (simp add: scan_files_append scan_file_no_match)
next
  assume h: "snapshot_match file = Some (g1, g2, g3)
      \<and> table_raises w \<lparr>slot_timestamp = g3, slot_type = g1, slot_name = g2\<rparr> = None"
  then show "snapshots_table (scan_file w file st) = snapshots_table st @ [(g2, g1, g3)]"
    by (simp add: scan_file_def add_snapshot_def Let_def)
  show "scan_files w (file # after) st = scan_files w after (scan_file w file st)" by simp
next
  assume h: "snapshot_match file = Some (g1, g2, g3)
      \<and> table_raises w \<lparr>slot_timestamp = g3, slot_type = g1, slot_name = g2\<rparr> = Some e"
  then show "snapshots_table (scan_file w file st) = snapshots_table st"
    by (simp add: scan_file_def add_snapshot_def Let_def)
  from h show "ui_log (scan_file w file st) = ui_log st @ [UnableToAdd file e]"
    by (simp add: scan_file_def add_snapshot_def Let_def)
  show "scan_files w (file # after) st = scan_files w after (scan_file w file st)" by simp
next
  assume "\<forall>slot. table_raises w slot = None"
  then show "snapshots_table (scan_files w files st) =
      snapshots_table st @ map (\<lambda>(g1, g2, g3). (g2, g1, g3)) (List.map_filter snapshot_match files)"
    by (intro snapshots_table_scan_files) simp
qed

theorem scan_skips_unmatched_files_witness:
  "snapshot_match ''notes.txt'' = None
   \<and> snapshot_match ''[Pre]_[a]_[t].json'' = Some (''Pre'', ''a'', ''t'')
   \<and> scan_files sample_ui_env ([] @ ''notes.txt'' # [''[Pre]_[a]_[t].json'']) initial_ui
       = scan_files sample_ui_env ([] @ [''[Pre]_[a]_[t].json'']) initial_ui
   \<and> snapshots_table (scan_files sample_ui_env [''notes.txt'', ''[Pre]_[a]_[t].json''] initial_ui)
       = [(''a'', ''Pre'', ''t'')]"
proof -
  have m1: "snapshot_match ''notes.txt'' = None" by code_simp
  have m2: "snapshot_match ''[Pre]_[a]_[t].json'' = Some (''Pre'', ''a'', ''t'')" by code_simp
  have ok: "\<forall>slot. table_raises sample_ui_env slot = None" by (simp add: sample_ui_env_def)
  note inst = scan_skips_unmatched_files[of "''notes.txt''" sample_ui_env "[]"
      "[''[Pre]_[a]_[t].json'']" initial_ui _ _ _ _ "[''notes.txt'', ''[Pre]_[a]_[t].json'']"]
  from inst m1 have a: "scan_files sample_ui_env ([] @ ''notes.txt'' # [''[Pre]_[a]_[t].json'']) initial_ui
       = scan_files sample_ui_env ([] @ [''[Pre]_[a]_[t].json'']) initial_ui"
    by blast
  from inst ok have "snapshots_table (scan_files sample_ui_env [''notes.txt'', ''[Pre]_[a]_[t].json''] initial_ui)
      = snapshots_table initial_ui @ map (\<lambda>(g1, g2, g3). (g2, g1, g3))
          (List.map_filter snapshot_match [''notes.txt'', ''[Pre]_[a]_[t].json''])"
    by blast
  then have b: "snapshots_table (scan_files sample_ui_env [''notes.txt'', ''[Pre]_[a]_[t].json''] initial_ui)
       = [(''a'', ''Pre'', ''t'')]"
    by (simp add: List.map_filter_simps m1 m2 initial_ui_def)
  from m1 m2 a b show ?thesis by blast
qed


end
